theory Spec2Isabelle
  imports Complex_Main "HOL-Library.Monad_Syntax"
begin

section \<open>The push-up detector of app/services/detectors/pushup_detector.py\<close>

text \<open>
  The class \<^verbatim>\<open>PushupDetector\<close> is embedded with explicit state passing: every method
  takes the detector and returns the updated one. Coordinates and clock readings are
  Python floats; they are idealised as reals, so rounding of binary floating point is
  outside the model. A Python exception is the value \<open>None\<close>.
\<close>

subsection \<open>Data\<close>

text \<open>
  The phase labels are the four string literals of the source:
  \<^verbatim>\<open>"neutral"\<close>, \<^verbatim>\<open>"up"\<close>, \<^verbatim>\<open>"down"\<close>, \<^verbatim>\<open>"transition"\<close>.
\<close>

datatype phase = Neutral | Up | Down | Transition

text \<open>A landmark is a tuple \<^verbatim>\<open>(x, y)\<close>; \<^verbatim>\<open>landmark[1]\<close> is \<open>snd\<close>.\<close>

type_synonym landmark = "real \<times> real"

text \<open>
  The attributes set by \<^verbatim>\<open>__init__\<close>. The two deques are lists, oldest entry first;
  their \<^verbatim>\<open>maxlen\<close> (10 and 5) is applied where the source appends.
\<close>

record detector =
  rep_count :: int
  current_phase :: phase
  last_phase :: phase
  phase_history :: "phase list"
  last_rep_time :: real
  min_rep_interval :: real
  position_history :: "phase list"

text \<open>
  The dictionary returned by \<^verbatim>\<open>update\<close>, with keys \<^verbatim>\<open>'phase'\<close>, \<^verbatim>\<open>'rep_count'\<close>,
  \<^verbatim>\<open>'rep_completed'\<close> and \<^verbatim>\<open>'phase_history'\<close> (prefixed here, since the detector has
  attributes of the same names).
\<close>

record result =
  r_phase :: phase
  r_rep_count :: int
  r_rep_completed :: bool
  r_phase_history :: "phase list"

subsection \<open>Python primitives\<close>

text \<open>\<^verbatim>\<open>xs[i]\<close> for a non-negative \<open>i\<close>: IndexError out of range.\<close>

definition py_index :: "'a list \<Rightarrow> nat \<Rightarrow> 'a option" where
  "py_index xs i = (if i < length xs then Some (xs ! i) else None)"

text \<open>\<^verbatim>\<open>xs[-n:]\<close>: the last \<open>n\<close> entries, all of them when there are fewer.\<close>

definition py_last_n :: "nat \<Rightarrow> 'a list \<Rightarrow> 'a list" where
  "py_last_n n xs = drop (length xs - n) xs"

text \<open>
  \<^verbatim>\<open>deque(maxlen=n).append(x)\<close>: the entry is added on the right, and the leftmost
  entry is dropped when the deque has grown beyond \<open>n\<close>.
\<close>

definition deque_append :: "nat \<Rightarrow> 'a list \<Rightarrow> 'a \<Rightarrow> 'a list" where
  "deque_append maxlen xs x =
     (let ys = xs @ [x] in if length ys > maxlen then tl ys else ys)"

text \<open>
  Iterating over \<^verbatim>\<open>set(xs)\<close> visits each distinct element once, in an order fixed by
  the hashes of the elements and the insertion history; string hashes change from one
  process to the next. The order is the parameter \<open>rank\<close>: the distinct elements are
  visited by increasing rank. Every order of the distinct elements is the order of some
  \<open>rank\<close>.
\<close>

type_synonym set_order = "phase list \<Rightarrow> phase \<Rightarrow> nat"

definition py_set_iter :: "set_order \<Rightarrow> phase list \<Rightarrow> phase list" where
  "py_set_iter rank xs = sort_key (rank xs) (remdups xs)"

text \<open>
  \<^verbatim>\<open>max(keys, key=f)\<close>: the first element, in iteration order, whose key is largest;
  ValueError on an empty sequence.
\<close>

fun max_from :: "('a \<Rightarrow> nat) \<Rightarrow> 'a \<Rightarrow> 'a list \<Rightarrow> 'a" where
  "max_from key best [] = best"
| "max_from key best (x # xs) = max_from key (if key x > key best then x else best) xs"

definition py_max :: "('a \<Rightarrow> nat) \<Rightarrow> 'a list \<Rightarrow> 'a option" where
  "py_max key xs = (case xs of [] \<Rightarrow> None | x # rest \<Rightarrow> Some (max_from key x rest))"

subsection \<open>The constructor\<close>

definition init :: detector where
  "init = \<lparr> rep_count = 0, current_phase = Neutral, last_phase = Neutral,
            phase_history = [], last_rep_time = 0, min_rep_interval = 1.0,
            position_history = [] \<rparr>"

subsection \<open>detect\_pushup\_phase\<close>

text \<open>
  Lines 51 to 79: the two counters \<^verbatim>\<open>up_indicators\<close> and \<^verbatim>\<open>down_indicators\<close> are
  updated by the three \<^verbatim>\<open>if\<close>/\<^verbatim>\<open>elif\<close> statements in turn, then the decision is taken.
\<close>

definition vote :: "real \<Rightarrow> real \<Rightarrow> real \<Rightarrow> phase" where
  "vote wrist_shoulder_diff elbow_shoulder_diff nose_shoulder_diff =
    (let up_indicators = (0::int);
         down_indicators = (0::int);
         (up_indicators, down_indicators) =
            (if wrist_shoulder_diff < - 0.15 then (up_indicators + 2, down_indicators)
             else if wrist_shoulder_diff > 0.1 then (up_indicators, down_indicators + 1)
             else (up_indicators, down_indicators));
         (up_indicators, down_indicators) =
            (if elbow_shoulder_diff < - 0.05 then (up_indicators + 1, down_indicators)
             else if elbow_shoulder_diff > 0.05 then (up_indicators, down_indicators + 1)
             else (up_indicators, down_indicators));
         (up_indicators, down_indicators) =
            (if nose_shoulder_diff < - 0.1 then (up_indicators + 1, down_indicators)
             else if nose_shoulder_diff > 0.05 then (up_indicators, down_indicators + 1)
             else (up_indicators, down_indicators))
     in if up_indicators \<ge> 2 then Up
        else if down_indicators \<ge> 2 then Down
        else Transition)"

text \<open>Lines 25 to 79: the key landmarks, the three differences and the vote.\<close>

definition raw_phase :: "landmark list \<Rightarrow> phase option" where
  "raw_phase landmarks = do {
     left_wrist \<leftarrow> py_index landmarks 15;
     right_wrist \<leftarrow> py_index landmarks 16;
     left_shoulder \<leftarrow> py_index landmarks 11;
     right_shoulder \<leftarrow> py_index landmarks 12;
     left_elbow \<leftarrow> py_index landmarks 13;
     right_elbow \<leftarrow> py_index landmarks 14;
     nose \<leftarrow> py_index landmarks 0;
     let avg_wrist_y = (snd left_wrist + snd right_wrist) / 2;
     let avg_shoulder_y = (snd left_shoulder + snd right_shoulder) / 2;
     let avg_elbow_y = (snd left_elbow + snd right_elbow) / 2;
     let nose_y = snd nose;
     let wrist_shoulder_diff = avg_wrist_y - avg_shoulder_y;
     let elbow_shoulder_diff = avg_elbow_y - avg_shoulder_y;
     let nose_shoulder_diff = nose_y - avg_shoulder_y;
     Some (vote wrist_shoulder_diff elbow_shoulder_diff nose_shoulder_diff)
   }"

text \<open>
  Lines 85 to 88: the majority vote over the last three entries of the window. The
  dictionary \<^verbatim>\<open>phase_counts\<close> has the distinct labels as keys, in the iteration order of
  the set, and \<^verbatim>\<open>phase_counts.get\<close> gives the number of occurrences.
\<close>

definition majority :: "set_order \<Rightarrow> phase list \<Rightarrow> phase option" where
  "majority rank window =
     (let recent_phases = py_last_n 3 window
      in py_max (count_list recent_phases) (py_set_iter rank recent_phases))"

definition detect_pushup_phase ::
  "set_order \<Rightarrow> detector \<Rightarrow> landmark list \<Rightarrow> (phase \<times> detector) option" where
  "detect_pushup_phase rank s landmarks =
     (if length landmarks \<noteq> 33 then Some (Neutral, s)
      else do {
        phase \<leftarrow> raw_phase landmarks;
        let s = s\<lparr>position_history := deque_append 5 (position_history s) phase\<rparr>;
        if length (position_history s) \<ge> 3
        then do { phase \<leftarrow> majority rank (position_history s); Some (phase, s) }
        else Some (phase, s)
      })"

subsection \<open>count\_rep, check\_rep\_completion, update, reset\<close>

text \<open>
  \<^verbatim>\<open>time.time()\<close> is read once in \<^verbatim>\<open>check_rep_completion\<close> and once more in
  \<^verbatim>\<open>count_rep\<close>; the two readings are the arguments \<open>now\<close> and \<open>now2\<close>. The
  \<^verbatim>\<open>print\<close> of \<^verbatim>\<open>count_rep\<close> is left out.
\<close>

definition count_rep :: "detector \<Rightarrow> real \<Rightarrow> detector" where
  "count_rep s now2 =
     s\<lparr>rep_count := rep_count s + 1, last_rep_time := now2, phase_history := []\<rparr>"

text \<open>Lines 127 to 130: the loop over \<^verbatim>\<open>range(1, len(recent))\<close>.\<close>

definition transitions :: "phase list \<Rightarrow> int" where
  "transitions recent =
     fold (\<lambda>i transitions. if recent ! i \<noteq> recent ! (i - 1) then transitions + 1 else transitions)
       [1 ..< length recent] 0"

text \<open>
  \<^verbatim>\<open>recent[-1]\<close> is \<open>last recent\<close>: it is read only after the length check, so the
  history has at least four entries and \<open>recent\<close> is not empty.
\<close>

definition check_rep_completion :: "detector \<Rightarrow> real \<Rightarrow> real \<Rightarrow> bool \<times> detector" where
  "check_rep_completion s now now2 =
     (if length (phase_history s) < 4 then (False, s)
      else let current_time = now in
        if current_time - last_rep_time s < min_rep_interval s then (False, s)
        else let recent = py_last_n 6 (phase_history s);
                 has_down = (Down \<in> set (butlast recent));
                 is_up_now = (last recent = Up)
             in if has_down \<and> is_up_now
                then (if transitions recent \<ge> 2 then (True, count_rep s now2) else (False, s))
                else (False, s))"

definition update ::
  "set_order \<Rightarrow> detector \<Rightarrow> real \<Rightarrow> real \<Rightarrow> landmark list \<Rightarrow> (result \<times> detector) option" where
  "update rank s now now2 landmarks = do {
     let s = s\<lparr>last_phase := current_phase s\<rparr>;
     (phase, s) \<leftarrow> detect_pushup_phase rank s landmarks;
     let s = s\<lparr>current_phase := phase\<rparr>;
     let s = s\<lparr>phase_history := deque_append 10 (phase_history s) (current_phase s)\<rparr>;
     let (rep_completed, s) = check_rep_completion s now now2;
     Some (\<lparr> r_phase = current_phase s, r_rep_count = rep_count s,
             r_rep_completed = rep_completed, r_phase_history = phase_history s \<rparr>, s)
   }"

definition reset :: "detector \<Rightarrow> detector" where
  "reset s = s\<lparr>rep_count := 0, phase_history := [], position_history := [],
               last_rep_time := 0\<rparr>"

text \<open>
  A session, as the loop of scripts/realtime\_detect.py drives it: one \<^verbatim>\<open>update\<close> per
  frame, each with its two clock readings; the results are collected in order.
\<close>

type_synonym frame_input = "real \<times> real \<times> landmark list"

fun run :: "set_order \<Rightarrow> detector \<Rightarrow> frame_input list \<Rightarrow> (result list \<times> detector) option" where
  "run rank s [] = Some ([], s)"
| "run rank s ((now, now2, landmarks) # rest) = do {
     (r, s) \<leftarrow> update rank s now now2 landmarks;
     (rs, s) \<leftarrow> run rank s rest;
     Some (r # rs, s)
   }"

subsection \<open>The methods on input that is not typed as annotated\<close>

text \<open>
  The annotation \<^verbatim>\<open>List[Tuple[float, float]]\<close> is not enforced. Here a point is a tuple
  of floats of any length, so that \<^verbatim>\<open>landmark[1]\<close> is a checked read as well: IndexError
  on a point without a second coordinate. The reads happen in the order of lines 35 to
  38. The rest is lines 20 to 106 as above.
\<close>

type_synonym point = "real list"

definition raw_phase_untyped :: "point list \<Rightarrow> phase option" where
  "raw_phase_untyped landmarks = do {
     left_wrist \<leftarrow> py_index landmarks 15;
     right_wrist \<leftarrow> py_index landmarks 16;
     left_shoulder \<leftarrow> py_index landmarks 11;
     right_shoulder \<leftarrow> py_index landmarks 12;
     left_elbow \<leftarrow> py_index landmarks 13;
     right_elbow \<leftarrow> py_index landmarks 14;
     nose \<leftarrow> py_index landmarks 0;
     left_wrist_y \<leftarrow> py_index left_wrist 1;
     right_wrist_y \<leftarrow> py_index right_wrist 1;
     let avg_wrist_y = (left_wrist_y + right_wrist_y) / 2;
     left_shoulder_y \<leftarrow> py_index left_shoulder 1;
     right_shoulder_y \<leftarrow> py_index right_shoulder 1;
     let avg_shoulder_y = (left_shoulder_y + right_shoulder_y) / 2;
     left_elbow_y \<leftarrow> py_index left_elbow 1;
     right_elbow_y \<leftarrow> py_index right_elbow 1;
     let avg_elbow_y = (left_elbow_y + right_elbow_y) / 2;
     nose_y \<leftarrow> py_index nose 1;
     let wrist_shoulder_diff = avg_wrist_y - avg_shoulder_y;
     let elbow_shoulder_diff = avg_elbow_y - avg_shoulder_y;
     let nose_shoulder_diff = nose_y - avg_shoulder_y;
     Some (vote wrist_shoulder_diff elbow_shoulder_diff nose_shoulder_diff)
   }"

definition detect_pushup_phase_untyped ::
  "set_order \<Rightarrow> detector \<Rightarrow> point list \<Rightarrow> (phase \<times> detector) option" where
  "detect_pushup_phase_untyped rank s landmarks =
     (if length landmarks \<noteq> 33 then Some (Neutral, s)
      else do {
        phase \<leftarrow> raw_phase_untyped landmarks;
        let s = s\<lparr>position_history := deque_append 5 (position_history s) phase\<rparr>;
        if length (position_history s) \<ge> 3
        then do { phase \<leftarrow> majority rank (position_history s); Some (phase, s) }
        else Some (phase, s)
      })"

definition update_untyped ::
  "set_order \<Rightarrow> detector \<Rightarrow> real \<Rightarrow> real \<Rightarrow> point list \<Rightarrow> (result \<times> detector) option" where
  "update_untyped rank s now now2 landmarks = do {
     let s = s\<lparr>last_phase := current_phase s\<rparr>;
     (phase, s) \<leftarrow> detect_pushup_phase_untyped rank s landmarks;
     let s = s\<lparr>current_phase := phase\<rparr>;
     let s = s\<lparr>phase_history := deque_append 10 (phase_history s) (current_phase s)\<rparr>;
     let (rep_completed, s) = check_rep_completion s now now2;
     Some (\<lparr> r_phase = current_phase s, r_rep_count = rep_count s,
             r_rep_completed = rep_completed, r_phase_history = phase_history s \<rparr>, s)
   }"

subsection \<open>The classifier as the specification words it\<close>

text \<open>
  The specification gives the three differences and a table of independent conditions,
  each with its weight: one sum of weights for \<open>up\<close> and one for \<open>down\<close>.
\<close>

definition spec_wrist_shoulder_diff :: "landmark list \<Rightarrow> real" where
  "spec_wrist_shoulder_diff landmarks =
     (snd (landmarks ! 15) + snd (landmarks ! 16)) / 2
       - (snd (landmarks ! 11) + snd (landmarks ! 12)) / 2"

definition spec_elbow_shoulder_diff :: "landmark list \<Rightarrow> real" where
  "spec_elbow_shoulder_diff landmarks =
     (snd (landmarks ! 13) + snd (landmarks ! 14)) / 2
       - (snd (landmarks ! 11) + snd (landmarks ! 12)) / 2"

definition spec_nose_shoulder_diff :: "landmark list \<Rightarrow> real" where
  "spec_nose_shoulder_diff landmarks =
     snd (landmarks ! 0) - (snd (landmarks ! 11) + snd (landmarks ! 12)) / 2"

definition spec_up_indicators :: "real \<Rightarrow> real \<Rightarrow> real \<Rightarrow> int" where
  "spec_up_indicators w e n =
     (if w < - 0.15 then 2 else 0) + (if e < - 0.05 then 1 else 0) + (if n < - 0.10 then 1 else 0)"

definition spec_down_indicators :: "real \<Rightarrow> real \<Rightarrow> real \<Rightarrow> int" where
  "spec_down_indicators w e n =
     (if w > 0.10 then 1 else 0) + (if e > 0.05 then 1 else 0) + (if n > 0.05 then 1 else 0)"

definition spec_decision :: "real \<Rightarrow> real \<Rightarrow> real \<Rightarrow> phase" where
  "spec_decision w e n =
     (if spec_up_indicators w e n \<ge> 2 then Up
      else if spec_down_indicators w e n \<ge> 2 then Down
      else Transition)"

subsection \<open>Auxiliary notions for the proofs\<close>

text \<open>
  The detector as \<^verbatim>\<open>update\<close> has it just before \<^verbatim>\<open>check_rep_completion\<close>, when the
  label \<open>p\<close> was detected and the smoothing window has become \<open>w\<close>.
\<close>

definition pushed :: "detector \<Rightarrow> phase \<Rightarrow> phase list \<Rightarrow> detector" where
  "pushed s p w = s\<lparr>last_phase := current_phase s, position_history := w, current_phase := p,
                     phase_history := deque_append 10 (phase_history s) p\<rparr>"

text \<open>
  Two detectors agree when they differ at most in \<^verbatim>\<open>current_phase\<close> and
  \<^verbatim>\<open>last_phase\<close>, the two attributes that \<^verbatim>\<open>reset\<close> leaves as they are.
\<close>

definition agree :: "detector \<Rightarrow> detector \<Rightarrow> bool" where
  "agree a b \<longleftrightarrow>
     rep_count a = rep_count b \<and> phase_history a = phase_history b \<and>
     position_history a = position_history b \<and> last_rep_time a = last_rep_time b \<and>
     min_rep_interval a = min_rep_interval b"

text \<open>
  The pair \<^verbatim>\<open>(x, y)\<close> of a point that has at least two coordinates, and the point of a
  pair.
\<close>

definition to_pair :: "point \<Rightarrow> landmark" where
  "to_pair pt = (pt ! 0, pt ! 1)"

definition of_pair :: "landmark \<Rightarrow> point" where
  "of_pair xy = [fst xy, snd xy]"

subsection \<open>Concrete frames and sessions\<close>

text \<open>
  A frame of 33 landmarks with the given heights of nose, shoulders, elbows and wrists;
  the other landmarks sit in the middle of the image.
\<close>

definition frame :: "real \<Rightarrow> real \<Rightarrow> real \<Rightarrow> real \<Rightarrow> landmark list" where
  "frame nose_y shoulder_y elbow_y wrist_y =
     [(0.5, nose_y)] @ replicate 10 (0.5, 0.5) @
     [(0.4, shoulder_y), (0.6, shoulder_y), (0.4, elbow_y), (0.6, elbow_y),
      (0.4, wrist_y), (0.6, wrist_y)] @
     replicate 16 (0.5, 0.5)"

text \<open>Wrists 0.2 and elbows 0.1 below the shoulders: two votes for \<open>down\<close>.\<close>

definition down_frame :: "landmark list" where
  "down_frame = frame 0.5 0.5 0.6 0.7"

text \<open>Wrists 0.25 above the shoulders: two votes for \<open>up\<close>.\<close>

definition up_frame :: "landmark list" where
  "up_frame = frame 0.5 0.5 0.5 0.25"

text \<open>Everything level with the shoulders: no vote.\<close>

definition transition_frame :: "landmark list" where
  "transition_frame = frame 0.5 0.5 0.5 0.5"

text \<open>A set order that visits \<open>Transition\<close> first.\<close>

definition rank_t :: set_order where
  "rank_t xs p = (if p = Transition then 0 else 1)"

text \<open>Five frames classified \<open>Down\<close>, a tenth of a second apart.\<close>

definition down_batch :: "frame_input list" where
  "down_batch = [(100, 100, down_frame), (100.1, 100.1, down_frame), (100.2, 100.2, down_frame),
                 (100.3, 100.3, down_frame), (100.4, 100.4, down_frame)]"

text \<open>Five frames classified \<open>Up\<close>, the first of them at the clock reading \<open>t\<close>.\<close>

definition up_batch :: "real \<Rightarrow> frame_input list" where
  "up_batch t = [(t, t, up_frame), (t + 0.1, t + 0.1, up_frame), (t + 0.2, t + 0.2, up_frame),
                 (t + 0.3, t + 0.3, up_frame), (t + 0.4, t + 0.4, up_frame)]"

text \<open>
  The start of a repetition: down, down, level, up. With \<open>rank_t\<close> the smoothed labels
  are \<open>Down, Down, Down, Transition\<close>, and \<open>warm_state\<close> is the detector afterwards.
\<close>

definition warm_up :: "frame_input list" where
  "warm_up = [(100, 100, down_frame), (100.1, 100.1, down_frame),
              (100.2, 100.2, transition_frame), (100.3, 100.3, up_frame)]"

definition warm_state :: detector where
  "warm_state = \<lparr> rep_count = 0, current_phase = Transition, last_phase = Down,
       phase_history = [Down, Down, Down, Transition], last_rep_time = 0,
       min_rep_interval = 1, position_history = [Down, Down, Transition, Up] \<rparr>"

text \<open>
  The detector after the repetition was counted at the clock reading 100.4, and the four
  frames that follow it: down, down, level, up.
\<close>

definition counted_state :: detector where
  "counted_state = \<lparr> rep_count = 1, current_phase = Up, last_phase = Transition,
       phase_history = [], last_rep_time = 100.4,
       min_rep_interval = 1, position_history = [Down, Down, Transition, Up, Up] \<rparr>"

definition next_rep :: "frame_input list" where
  "next_rep = [(100.5, 100.5, down_frame), (100.6, 100.6, down_frame),
               (100.7, 100.7, transition_frame), (100.8, 100.8, up_frame)]"

definition next_state :: detector where
  "next_state = \<lparr> rep_count = 1, current_phase = Transition, last_phase = Down,
       phase_history = [Up, Down, Down, Transition], last_rep_time = 100.4,
       min_rep_interval = 1, position_history = [Up, Down, Down, Transition, Up] \<rparr>"

text \<open>Thirty-three points that have an \<open>x\<close> coordinate only.\<close>

definition no_y_frame :: "point list" where
  "no_y_frame = replicate 33 [0.5]"

section \<open>Properties\<close>

subsection \<open>Python primitives\<close>

lemma length_py_last_n: "length (py_last_n n xs) = min n (length xs)"
  by (simp add: py_last_n_def)

lemma set_py_last_n: "set (py_last_n n xs) \<subseteq> set xs"
  by (simp add: py_last_n_def set_drop_subset)

lemma deque_append_ne: "deque_append (Suc n) xs x \<noteq> []"
  by (cases xs) (auto simp: deque_append_def Let_def)

lemma set_deque_append: "set (deque_append n xs x) \<subseteq> insert x (set xs)"
proof -
  have "set (tl (xs @ [x])) \<subseteq> set (xs @ [x])" by (rule list.set_sel(2) [THEN subsetI]) simp
  then show ?thesis by (auto simp: deque_append_def Let_def)
qed

lemma max_from_in: "max_from key best xs \<in> insert best (set xs)"
  by (induction xs arbitrary: best) auto

lemma max_from_ge_best: "key best \<le> key (max_from key best xs)"
proof (induction xs arbitrary: best)
  case Nil
  show ?case by simp
next
  case (Cons x xs)
  have "key best \<le> key (if key best < key x then x else best)" by simp
  also have "\<dots> \<le> key (max_from key (if key best < key x then x else best) xs)"
    by (rule Cons.IH)
  finally show ?case by simp
qed

lemma max_from_ge: "x \<in> set xs \<Longrightarrow> key x \<le> key (max_from key best xs)"
proof (induction xs arbitrary: best)
  case Nil
  then show ?case by simp
next
  case (Cons y ys)
  show ?case
  proof (cases "x = y")
    case True
    have "key y \<le> key (if key best < key y then y else best)" by simp
    also have "\<dots> \<le> key (max_from key (if key best < key y then y else best) ys)"
      by (rule max_from_ge_best)
    finally show ?thesis using True by simp
  next
    case False
    with Cons.prems have "x \<in> set ys" by simp
    then show ?thesis using Cons.IH by simp
  qed
qed

lemma py_max_Some:
  assumes "xs \<noteq> []"
  shows "\<exists>r. py_max key xs = Some r \<and> r \<in> set xs \<and> (\<forall>x\<in>set xs. key x \<le> key r)"
proof -
  from assms obtain y ys where xs: "xs = y # ys" by (cases xs) auto
  let ?r = "max_from key y ys"
  have 1: "py_max key xs = Some ?r" by (simp add: py_max_def xs)
  have 2: "?r \<in> set xs" using max_from_in [of key y ys] by (simp add: xs)
  have 3: "key x \<le> key ?r" if "x \<in> set xs" for x
    using that max_from_ge [of x ys key y] max_from_ge_best [of key y ys] by (auto simp: xs)
  from 1 2 3 show ?thesis by blast
qed

lemma set_py_set_iter: "set (py_set_iter rank xs) = set xs"
  by (simp add: py_set_iter_def)

text \<open>
  The parameter \<open>rank\<close> leaves no iteration order out: every arrangement of the distinct
  elements is the order of some \<open>rank\<close>.
\<close>

lemma index_in_distinct:
  assumes "distinct ys" and "i < length ys"
  shows "length (takeWhile (\<lambda>q. q \<noteq> ys ! i) ys) = i"
proof -
  have "takeWhile (\<lambda>q. q \<noteq> ys ! i) ys = take i ys"
  proof (rule takeWhile_eq_take_P_nth)
    fix j assume "j < i" "j < length ys"
    then show "ys ! j \<noteq> ys ! i" using assms by (simp add: nth_eq_iff_index_eq)
  next
    show "\<not> ys ! i \<noteq> ys ! i" by simp
  qed
  then show ?thesis using assms(2) by simp
qed

lemma py_set_iter_any_order:
  assumes "distinct ys" and "set ys = set xs"
  shows "\<exists>rank. py_set_iter rank xs = ys"
proof -
  define f where "f p = length (takeWhile (\<lambda>q. q \<noteq> p) ys)" for p
  have f_nth: "f (ys ! i) = i" if "i < length ys" for i
    unfolding f_def using assms(1) that by (rule index_in_distinct)
  have inj: "inj_on f (set ys)"
  proof (rule inj_onI)
    fix p q assume "p \<in> set ys" "q \<in> set ys" "f p = f q"
    then obtain i j where "i < length ys" "ys ! i = p" "j < length ys" "ys ! j = q"
      by (auto simp: in_set_conv_nth)
    with \<open>f p = f q\<close> f_nth show "p = q" by metis
  qed
  have "map f ys = [0 ..< length ys]"
    by (rule nth_equalityI) (simp_all add: f_nth)
  then have sorted_ys: "sorted (map f ys)" by simp
  let ?r = "sort_key f (remdups xs)"
  have set_r: "set ?r = set ys" using assms(2) by simp
  have "map f ?r = map f ys"
  proof (rule sorted_distinct_set_unique)
    show "sorted (map f ?r)" by (rule sorted_sort_key)
    show "distinct (map f ?r)" using inj set_r by (simp add: distinct_map)
    show "sorted (map f ys)" by (rule sorted_ys)
    show "distinct (map f ys)" using inj assms(1) by (simp add: distinct_map)
    show "set (map f ?r) = set (map f ys)" using set_r by simp
  qed
  moreover have "inj_on f (set ?r \<union> set ys)" using inj set_r by simp
  ultimately have "?r = ys" by (simp add: inj_on_map_eq_map)
  then have "py_set_iter (\<lambda>_. f) xs = ys" by (simp add: py_set_iter_def)
  then show ?thesis by blast
qed

lemma count_list_two_le: "x \<noteq> y \<Longrightarrow> count_list xs x + count_list xs y \<le> length xs"
  by (induction xs) auto

subsection \<open>The classifier and the smoother\<close>

lemma raw_phase_33:
  "length landmarks = 33 \<Longrightarrow>
   raw_phase landmarks =
     Some (vote ((snd (landmarks ! 15) + snd (landmarks ! 16)) / 2
                   - (snd (landmarks ! 11) + snd (landmarks ! 12)) / 2)
                ((snd (landmarks ! 13) + snd (landmarks ! 14)) / 2
                   - (snd (landmarks ! 11) + snd (landmarks ! 12)) / 2)
                (snd (landmarks ! 0) - (snd (landmarks ! 11) + snd (landmarks ! 12)) / 2))"
  by (simp add: raw_phase_def py_index_def Let_def)

lemma vote_spec_decision: "vote w e n = spec_decision w e n"
  by (simp add: vote_def spec_decision_def spec_up_indicators_def spec_down_indicators_def)

lemma majority_Some:
  assumes "window \<noteq> []"
  shows "\<exists>l. majority rank window = Some l \<and> l \<in> set (py_last_n 3 window) \<and>
    (\<forall>q. count_list (py_last_n 3 window) q \<le> count_list (py_last_n 3 window) l)"
proof -
  let ?recent = "py_last_n 3 window"
  have ne: "?recent \<noteq> []" using assms by (cases window) (auto simp: py_last_n_def)
  then have "py_set_iter rank ?recent \<noteq> []"
    using set_py_set_iter [of rank ?recent] by (metis set_empty)
  then obtain r where r: "py_max (count_list ?recent) (py_set_iter rank ?recent) = Some r"
      "r \<in> set (py_set_iter rank ?recent)"
      "\<forall>x\<in>set (py_set_iter rank ?recent). count_list ?recent x \<le> count_list ?recent r"
    using py_max_Some [of "py_set_iter rank ?recent" "count_list ?recent"] by blast
  have 1: "majority rank window = Some r" using r(1) by (simp add: majority_def)
  have 2: "r \<in> set ?recent" using r(2) by (simp add: set_py_set_iter)
  have 3: "count_list ?recent q \<le> count_list ?recent r" for q
  proof (cases "q \<in> set ?recent")
    case True
    then show ?thesis using r(3) by (simp add: set_py_set_iter)
  next
    case False
    then show ?thesis by simp
  qed
  from 1 2 3 show ?thesis by blast
qed

lemma majority_of_two:
  assumes "2 \<le> count_list (py_last_n 3 window) x"
  shows "majority rank window = Some x"
proof -
  have "window \<noteq> []" using assms by (auto simp: py_last_n_def)
  then obtain l where l: "majority rank window = Some l"
    and ge: "\<And>q. count_list (py_last_n 3 window) q \<le> count_list (py_last_n 3 window) l"
    using majority_Some [of window rank] by blast
  have "l = x"
  proof (rule ccontr)
    assume "l \<noteq> x"
    then have "count_list (py_last_n 3 window) l + count_list (py_last_n 3 window) x
                 \<le> length (py_last_n 3 window)"
      by (rule count_list_two_le)
    moreover have "length (py_last_n 3 window) \<le> 3" by (simp add: length_py_last_n)
    ultimately show False using assms ge [of x] by linarith
  qed
  with l show ?thesis by simp
qed

lemma majority_hd:
  "2 \<le> count_list (py_last_n 3 w) (hd (py_last_n 3 w)) \<Longrightarrow>
   majority rank w = Some (hd (py_last_n 3 w))"
  by (rule majority_of_two)

lemma majority_last:
  "2 \<le> count_list (py_last_n 3 w) (last w) \<Longrightarrow> majority rank w = Some (last w)"
  by (rule majority_of_two)

lemma detect_valid:
  assumes "length landmarks = 33" and "raw_phase landmarks = Some p"
  shows "\<exists>l. detect_pushup_phase rank s landmarks
               = Some (l, s\<lparr>position_history := deque_append 5 (position_history s) p\<rparr>)
     \<and> (if 3 \<le> length (deque_append 5 (position_history s) p)
         then majority rank (deque_append 5 (position_history s) p) = Some l else l = p)"
proof -
  let ?w = "deque_append 5 (position_history s) p"
  have "?w \<noteq> []" using deque_append_ne [of 4 "position_history s" p] by simp
  then obtain l where l: "majority rank ?w = Some l"
    using majority_Some [of ?w rank] by blast
  show ?thesis
  proof (cases "3 \<le> length ?w")
    case True
    then have "detect_pushup_phase rank s landmarks = Some (l, s\<lparr>position_history := ?w\<rparr>)"
      using assms l by (simp add: detect_pushup_phase_def Let_def)
    with True l show ?thesis by simp
  next
    case False
    then have "detect_pushup_phase rank s landmarks = Some (p, s\<lparr>position_history := ?w\<rparr>)"
      using assms by (simp add: detect_pushup_phase_def Let_def)
    with False show ?thesis by simp
  qed
qed

lemma detect_invalid:
  "length landmarks \<noteq> 33 \<Longrightarrow> detect_pushup_phase rank s landmarks = Some (Neutral, s)"
  by (simp add: detect_pushup_phase_def)

lemma detect_shape:
  "\<exists>p w. detect_pushup_phase rank s landmarks = Some (p, s\<lparr>position_history := w\<rparr>)"
proof (cases "length landmarks = 33")
  case False
  then have "detect_pushup_phase rank s landmarks
               = Some (Neutral, s\<lparr>position_history := position_history s\<rparr>)"
    by (simp add: detect_invalid)
  then show ?thesis by blast
next
  case True
  then obtain p where "raw_phase landmarks = Some p" by (simp add: raw_phase_33)
  with True show ?thesis using detect_valid [of landmarks p rank s] by blast
qed

lemma detect_window_only:
  assumes "position_history a = position_history b"
    and "detect_pushup_phase rank a landmarks = Some (p, a\<lparr>position_history := w\<rparr>)"
  shows "detect_pushup_phase rank b landmarks = Some (p, b\<lparr>position_history := w\<rparr>)"
proof (cases "length landmarks = 33")
  case False
  with assms(2) have "p = Neutral" and "a = a\<lparr>position_history := w\<rparr>"
    by (simp_all add: detect_invalid)
  from this(2) have "position_history a = position_history (a\<lparr>position_history := w\<rparr>)"
    by simp
  then have "w = position_history b" using assms(1) by simp
  then show ?thesis using False \<open>p = Neutral\<close> by (simp add: detect_invalid)
next
  case True
  then obtain q where q: "raw_phase landmarks = Some q" by (simp add: raw_phase_33)
  let ?w = "deque_append 5 (position_history a) q"
  from detect_valid [OF True q, of rank a] obtain l where
    la: "detect_pushup_phase rank a landmarks = Some (l, a\<lparr>position_history := ?w\<rparr>)"
    and lm: "if 3 \<le> length ?w then majority rank ?w = Some l else l = q"
    by blast
  from detect_valid [OF True q, of rank b] obtain l' where
    lb: "detect_pushup_phase rank b landmarks = Some (l', b\<lparr>position_history := ?w\<rparr>)"
    and lm': "if 3 \<le> length ?w then majority rank ?w = Some l' else l' = q"
    using assms(1) by auto
  have "l' = l" using lm lm' by (auto split: if_splits)
  from la assms(2) have "p = l" and "a\<lparr>position_history := w\<rparr> = a\<lparr>position_history := ?w\<rparr>"
    by simp_all
  from this(2) have "position_history (a\<lparr>position_history := w\<rparr>)
                       = position_history (a\<lparr>position_history := ?w\<rparr>)"
    by (rule arg_cong)
  then have "w = ?w" by simp
  with lb \<open>l' = l\<close> \<open>p = l\<close> show ?thesis by simp
qed

subsection \<open>The transition count\<close>

lemma fold_count_shift:
  "fold (\<lambda>i t. if P i then t + 1 else t) is (a::int)
     = a + fold (\<lambda>i t. if P i then t + 1 else t) is 0"
proof (induction "is" arbitrary: a)
  case Nil
  show ?case by simp
next
  case (Cons i "is")
  show ?case
    using Cons.IH [of "a + 1"] Cons.IH [of 1] Cons.IH [of a] by simp
qed

lemma transitions_Nil: "transitions [] = 0"
  by (simp add: transitions_def)

lemma transitions_single: "transitions [x] = 0"
  by (simp add: transitions_def)

lemma transitions_Cons2:
  "transitions (x # y # xs) = (if y \<noteq> x then 1 else 0) + transitions (y # xs)"
proof -
  let ?P = "\<lambda>i. (x # y # xs) ! i \<noteq> (x # y # xs) ! (i - 1)"
  let ?Q = "\<lambda>i. (y # xs) ! i \<noteq> (y # xs) ! (i - 1)"
  let ?f = "\<lambda>P (i::nat) (t::int). if P i then t + 1 else t"
  have upt: "[1 ..< length (x # y # xs)] = 1 # map Suc [1 ..< length (y # xs)]"
  proof -
    have "[1 ..< Suc (Suc (length xs))] = 1 # [Suc 1 ..< Suc (Suc (length xs))]"
      by (rule upt_conv_Cons) simp
    also have "[Suc 1 ..< Suc (Suc (length xs))] = map Suc [1 ..< Suc (length xs)]"
      by (rule map_Suc_upt [symmetric])
    finally show ?thesis by simp
  qed
  have cong: "fold (?f ?P) (map Suc [1 ..< length (y # xs)]) a
            = fold (?f ?Q) [1 ..< length (y # xs)] a" for a
    unfolding fold_map
  proof (rule fold_cong)
    fix i assume "i \<in> set [1 ..< length (y # xs)]"
    then have "1 \<le> i" by (simp del: upt_Suc)
    then obtain j where "i = Suc j" by (cases i) auto
    then show "(?f ?P \<circ> Suc) i = ?f ?Q i" by (auto simp: fun_eq_iff)
  qed simp_all
  have first: "?f ?P 1 0 = (if y \<noteq> x then 1 else 0)" by simp
  have "transitions (x # y # xs) = fold (?f ?P) (1 # map Suc [1 ..< length (y # xs)]) 0"
    unfolding transitions_def upt ..
  also have "\<dots> = fold (?f ?P) (map Suc [1 ..< length (y # xs)]) (?f ?P 1 0)"
    by (simp only: fold_simps)
  also have "\<dots> = fold (?f ?Q) [1 ..< length (y # xs)] (if y \<noteq> x then 1 else 0)"
    unfolding first by (rule cong)
  also have "\<dots> = (if y \<noteq> x then 1 else 0) + transitions (y # xs)"
    unfolding transitions_def by (rule fold_count_shift)
  finally show ?thesis .
qed

lemmas transitions_simps = transitions_Nil transitions_single transitions_Cons2

lemma transitions_append_ge: "transitions ys \<le> transitions (xs @ ys)"
proof (induction xs)
  case Nil
  show ?case by simp
next
  case (Cons x xs)
  show ?case
  proof (cases "xs @ ys")
    case Nil
    then show ?thesis by (simp add: transitions_simps)
  next
    case (Cons z zs)
    then have "transitions (x # xs @ ys) = (if z \<noteq> x then 1 else 0) + transitions (xs @ ys)"
      by (simp add: transitions_simps)
    with Cons.IH show ?thesis by simp
  qed
qed

lemma transitions_constant: "\<forall>q\<in>set xs. q = l \<Longrightarrow> transitions xs = 0"
proof (induction xs rule: induct_list012)
  case 1
  show ?case by (simp add: transitions_simps)
next
  case (2 x)
  show ?case by (simp add: transitions_simps)
next
  case (3 x y zs)
  then show ?case by (simp add: transitions_simps)
qed

subsection \<open>check\_rep\_completion and update\<close>

lemma check_shape:
  "check_rep_completion s now now2 = (c, s') \<Longrightarrow> s' = (if c then count_rep s now2 else s)"
  by (auto simp: check_rep_completion_def Let_def split: if_splits)

lemma check_complete:
  assumes "4 \<le> length (phase_history s)"
    and "\<not> now - last_rep_time s < min_rep_interval s"
    and "Down \<in> set (butlast (py_last_n 6 (phase_history s)))"
    and "last (py_last_n 6 (phase_history s)) = Up"
    and "2 \<le> transitions (py_last_n 6 (phase_history s))"
  shows "check_rep_completion s now now2 = (True, count_rep s now2)"
  using assms by (simp add: check_rep_completion_def Let_def)

lemma check_debounce:
  "now - last_rep_time s < min_rep_interval s \<Longrightarrow>
   check_rep_completion s now now2 = (False, s)"
  by (simp add: check_rep_completion_def)

lemma check_constant:
  assumes "\<forall>q\<in>set (phase_history s). q = l"
  shows "check_rep_completion s now now2 = (False, s)"
proof -
  let ?recent = "py_last_n 6 (phase_history s)"
  have all: "\<forall>q\<in>set ?recent. q = l"
    using assms set_py_last_n [of 6 "phase_history s"] by blast
  have "\<not> (Down \<in> set (butlast ?recent) \<and> last ?recent = Up)"
    if "4 \<le> length (phase_history s)"
  proof
    assume h: "Down \<in> set (butlast ?recent) \<and> last ?recent = Up"
    then have "Down \<in> set ?recent" by (auto dest: in_set_butlastD)
    with all have "l = Down" by auto
    have "?recent \<noteq> []" using that by (auto simp: py_last_n_def)
    then have "last ?recent \<in> set ?recent" by (rule last_in_set)
    with all h have "l = Up" by auto
    with \<open>l = Down\<close> show False by simp
  qed
  then show ?thesis
    by (cases "4 \<le> length (phase_history s)") (auto simp: check_rep_completion_def Let_def)
qed

lemma update_via_detect:
  assumes "detect_pushup_phase rank (s\<lparr>last_phase := current_phase s\<rparr>) landmarks
             = Some (p, s\<lparr>last_phase := current_phase s, position_history := w\<rparr>)"
    and "check_rep_completion (pushed s p w) now now2 = (c, s')"
  shows "update rank s now now2 landmarks =
     Some (\<lparr> r_phase = p, r_rep_count = rep_count s', r_rep_completed = c,
             r_phase_history = phase_history s' \<rparr>, s')"
proof -
  have s': "s' = (if c then count_rep (pushed s p w) now2 else pushed s p w)"
    using assms(2) by (rule check_shape)
  have cp: "current_phase s' = p" by (simp add: s' count_rep_def pushed_def)
  have eq: "s\<lparr>last_phase := current_phase s, position_history := w, current_phase := p,
      phase_history := deque_append 10 (phase_history s) p\<rparr> = pushed s p w"
    by (simp add: pushed_def)
  show ?thesis
    using assms(2) cp by (simp add: update_def assms(1) eq)
qed

lemma update_shape:
  "\<exists>p w c s'. update rank s now now2 landmarks =
       Some (\<lparr> r_phase = p, r_rep_count = rep_count s', r_rep_completed = c,
               r_phase_history = phase_history s' \<rparr>, s')
     \<and> detect_pushup_phase rank (s\<lparr>last_phase := current_phase s\<rparr>) landmarks
             = Some (p, s\<lparr>last_phase := current_phase s, position_history := w\<rparr>)
     \<and> check_rep_completion (pushed s p w) now now2 = (c, s')
     \<and> s' = (if c then count_rep (pushed s p w) now2 else pushed s p w)"
proof -
  obtain p w where d: "detect_pushup_phase rank (s\<lparr>last_phase := current_phase s\<rparr>) landmarks
             = Some (p, s\<lparr>last_phase := current_phase s, position_history := w\<rparr>)"
    using detect_shape [of rank "s\<lparr>last_phase := current_phase s\<rparr>" landmarks] by auto
  obtain c s' where c: "check_rep_completion (pushed s p w) now now2 = (c, s')"
    by (cases "check_rep_completion (pushed s p w) now now2") auto
  from update_via_detect [OF d c] d c check_shape [OF c] show ?thesis by blast
qed

text \<open>What one update does to the attributes, read off the returned result.\<close>

lemma update_effect:
  assumes "update rank s now now2 landmarks = Some (r, s')"
  shows "r_phase r = current_phase s'" and "r_rep_count r = rep_count s'"
    and "r_phase_history r = phase_history s'"
    and "min_rep_interval s' = min_rep_interval s"
    and "r_rep_completed r \<Longrightarrow>
           rep_count s' = rep_count s + 1 \<and> last_rep_time s' = now2 \<and> phase_history s' = []"
    and "\<not> r_rep_completed r \<Longrightarrow>
           rep_count s' = rep_count s \<and> last_rep_time s' = last_rep_time s \<and>
           phase_history s' = deque_append 10 (phase_history s) (r_phase r)"
    and "check_rep_completion
           (pushed s (r_phase r) (position_history s')) now now2 = (r_rep_completed r, s')"
proof -
  from update_shape [of rank s now now2 landmarks] assms obtain p w c where
    r: "r = \<lparr> r_phase = p, r_rep_count = rep_count s', r_rep_completed = c,
               r_phase_history = phase_history s' \<rparr>"
    and c: "check_rep_completion (pushed s p w) now now2 = (c, s')"
    and s': "s' = (if c then count_rep (pushed s p w) now2 else pushed s p w)"
    by auto
  have w: "position_history s' = w" by (simp add: s' count_rep_def pushed_def)
  show "r_phase r = current_phase s'" by (simp add: r s' count_rep_def pushed_def)
  show "r_rep_count r = rep_count s'" by (simp add: r)
  show "r_phase_history r = phase_history s'" by (simp add: r)
  show "min_rep_interval s' = min_rep_interval s" by (simp add: s' count_rep_def pushed_def)
  show "r_rep_completed r \<Longrightarrow>
           rep_count s' = rep_count s + 1 \<and> last_rep_time s' = now2 \<and> phase_history s' = []"
    by (simp add: r s' count_rep_def pushed_def)
  show "\<not> r_rep_completed r \<Longrightarrow>
           rep_count s' = rep_count s \<and> last_rep_time s' = last_rep_time s \<and>
           phase_history s' = deque_append 10 (phase_history s) (r_phase r)"
    by (simp add: r s' pushed_def)
  show "check_rep_completion
           (pushed s (r_phase r) (position_history s')) now now2 = (r_rep_completed r, s')"
    using c by (simp add: r w)
qed

subsection \<open>Evaluation of concrete frames\<close>

lemma length_frame: "length (frame n s e w) = 33"
  by (simp add: frame_def)

lemma raw_phase_frame: "raw_phase (frame n s e w) = Some (vote (w - s) (e - s) (n - s))"
  by (simp add: raw_phase_33 length_frame) (simp add: frame_def nth_append)

lemma raw_down_frame: "raw_phase down_frame = Some Down"
  by (simp add: down_frame_def raw_phase_frame vote_def)

lemma raw_up_frame: "raw_phase up_frame = Some Up"
  by (simp add: up_frame_def raw_phase_frame vote_def)

lemma raw_transition_frame: "raw_phase transition_frame = Some Transition"
  by (simp add: transition_frame_def raw_phase_frame vote_def)

text \<open>
  The wrists alone, 0.2 below the shoulders, cast a single vote for \<open>down\<close>: such a frame
  is classified Transition, not Down.
\<close>

lemma raw_wrist_only_frame: "raw_phase (frame 0.5 0.5 0.5 0.7) = Some Transition"
  by (simp add: raw_phase_frame vote_def)

lemma length_frames:
  "length down_frame = 33" "length up_frame = 33" "length transition_frame = 33"
  by (simp_all add: down_frame_def up_frame_def transition_frame_def length_frame)

lemmas eval_defs = update_def detect_pushup_phase_def length_frames raw_down_frame raw_up_frame
  raw_transition_frame deque_append_def Let_def check_rep_completion_def majority_def
  py_last_n_def py_set_iter_def py_max_def count_rep_def transitions_simps rank_t_def

lemma run_warm_up:
  "run rank_t init warm_up =
     Some ([\<lparr>r_phase = Down, r_rep_count = 0, r_rep_completed = False, r_phase_history = [Down]\<rparr>,
            \<lparr>r_phase = Down, r_rep_count = 0, r_rep_completed = False,
               r_phase_history = [Down, Down]\<rparr>,
            \<lparr>r_phase = Down, r_rep_count = 0, r_rep_completed = False,
               r_phase_history = [Down, Down, Down]\<rparr>,
            \<lparr>r_phase = Transition, r_rep_count = 0, r_rep_completed = False,
               r_phase_history = [Down, Down, Down, Transition]\<rparr>], warm_state)"
  by (simp add: warm_up_def warm_state_def init_def eval_defs)

lemma update_warm_state:
  "update rank_t warm_state 100.4 100.4 up_frame =
     Some (\<lparr>r_phase = Up, r_rep_count = 1, r_rep_completed = True, r_phase_history = []\<rparr>,
           counted_state)"
  by (simp add: warm_state_def counted_state_def eval_defs)

lemma run_next_rep:
  "run rank_t counted_state next_rep =
     Some ([\<lparr>r_phase = Up, r_rep_count = 1, r_rep_completed = False, r_phase_history = [Up]\<rparr>,
            \<lparr>r_phase = Down, r_rep_count = 1, r_rep_completed = False,
               r_phase_history = [Up, Down]\<rparr>,
            \<lparr>r_phase = Down, r_rep_count = 1, r_rep_completed = False,
               r_phase_history = [Up, Down, Down]\<rparr>,
            \<lparr>r_phase = Transition, r_rep_count = 1, r_rep_completed = False,
               r_phase_history = [Up, Down, Down, Transition]\<rparr>], next_state)"
  by (simp add: next_rep_def next_state_def counted_state_def eval_defs)

text \<open>
  The update after \<open>next_state\<close> meets the completion pattern: with a clock reading more
  than a second after the counted repetition it counts a second one.
\<close>

lemma update_next_state_late:
  "update rank_t next_state 101.5 101.5 up_frame =
     Some (\<lparr>r_phase = Up, r_rep_count = 2, r_rep_completed = True, r_phase_history = []\<rparr>,
           \<lparr> rep_count = 2, current_phase = Up, last_phase = Transition,
             phase_history = [], last_rep_time = 101.5,
             min_rep_interval = 1, position_history = [Down, Down, Transition, Up, Up] \<rparr>)"
  by (simp add: next_state_def eval_defs)

subsection \<open>Completion of a repetition\<close>

lemma deque_append_suffix:
  "\<exists>pre'. deque_append 10 (pre @ [a, b, c]) d = pre' @ [a, b, c, d]"
proof (cases "10 < length (pre @ [a, b, c, d])")
  case True
  then obtain x xs where "pre = x # xs" by (cases pre) auto
  with True have "deque_append 10 (pre @ [a, b, c]) d = xs @ [a, b, c, d]"
    by (simp add: deque_append_def)
  then show ?thesis by blast
next
  case False
  then have "deque_append 10 (pre @ [a, b, c]) d = pre @ [a, b, c, d]"
    by (simp add: deque_append_def)
  then show ?thesis by blast
qed

lemma py_last_6_suffix: "\<exists>q. py_last_n 6 (pre @ [a, b, c, d]) = q @ [a, b, c, d]"
proof -
  have "py_last_n 6 (pre @ [a, b, c, d]) = drop (length pre - 2) pre @ [a, b, c, d]"
    by (simp add: py_last_n_def)
  then show ?thesis by blast
qed

lemma check_down_down_transition_up:
  assumes "phase_history s = pre @ [Down, Down, Transition, Up]"
    and "\<not> now - last_rep_time s < min_rep_interval s"
  shows "check_rep_completion s now now2 = (True, count_rep s now2)"
proof (rule check_complete)
  obtain q where q: "py_last_n 6 (phase_history s) = q @ [Down, Down, Transition, Up]"
    using py_last_6_suffix [of pre Down Down Transition Up] assms(1) by auto
  show "4 \<le> length (phase_history s)" by (simp add: assms(1))
  show "\<not> now - last_rep_time s < min_rep_interval s" by (rule assms(2))
  show "Down \<in> set (butlast (py_last_n 6 (phase_history s)))"
    by (simp add: q butlast_append)
  show "last (py_last_n 6 (phase_history s)) = Up" by (simp add: q)
  have "transitions [Down, Down, Transition, Up] = 2" by (simp add: transitions_simps)
  then show "2 \<le> transitions (py_last_n 6 (phase_history s))"
    using transitions_append_ge [of "[Down, Down, Transition, Up]" q] by (simp add: q)
qed

text \<open>
  Claim C1. When the history of smoothed labels ends with Down, Down, Transition, the
  update at hand produces the label Up, and at least \<^verbatim>\<open>min_rep_interval\<close> has passed
  since the last counted repetition, then the update returns \<^verbatim>\<open>rep_completed = True\<close>,
  the count has grown by exactly one, and the history is empty, in the detector and in
  the returned snapshot.
\<close>

theorem rep_completed_after_down_down_transition_up:
  assumes "phase_history s = pre @ [Down, Down, Transition]"
    and "update rank s now now2 landmarks = Some (r, s')"
    and "r_phase r = Up"
    and "min_rep_interval s \<le> now - last_rep_time s"
  shows "r_rep_completed r \<and> r_rep_count r = rep_count s + 1 \<and> rep_count s' = rep_count s + 1
         \<and> phase_history s' = [] \<and> r_phase_history r = []"
proof -
  let ?p = "pushed s Up (position_history s')"
  obtain pre' where "deque_append 10 (pre @ [Down, Down, Transition]) Up
                       = pre' @ [Down, Down, Transition, Up]"
    using deque_append_suffix [of pre Down Down Transition Up] by blast
  then have h: "phase_history ?p = pre' @ [Down, Down, Transition, Up]"
    by (simp add: pushed_def assms(1))
  have "\<not> now - last_rep_time ?p < min_rep_interval ?p"
    using assms(4) by (simp add: pushed_def)
  with h have "check_rep_completion ?p now now2 = (True, count_rep ?p now2)"
    by (rule check_down_down_transition_up)
  moreover have "check_rep_completion ?p now now2 = (r_rep_completed r, s')"
    using update_effect(7) [OF assms(2)] by (simp add: assms(3))
  ultimately have c: "r_rep_completed r" by simp
  from update_effect(5) [OF assms(2) c] update_effect(2,3) [OF assms(2)] c
  show ?thesis by simp
qed

theorem rep_completed_after_down_down_transition_up_witness:
  "phase_history warm_state = [Down] @ [Down, Down, Transition]
   \<and> update rank_t warm_state 100.4 100.4 up_frame =
       Some (\<lparr>r_phase = Up, r_rep_count = 1, r_rep_completed = True, r_phase_history = []\<rparr>,
             counted_state)
   \<and> min_rep_interval warm_state \<le> 100.4 - last_rep_time warm_state
   \<and> rep_count warm_state + 1 = 1 \<and> rep_count counted_state = 1
   \<and> phase_history counted_state = []"
proof -
  let ?r = "\<lparr>r_phase = Up, r_rep_count = 1, r_rep_completed = True, r_phase_history = []\<rparr>"
  have h1: "phase_history warm_state = [Down] @ [Down, Down, Transition]"
    by (simp add: warm_state_def)
  have h2: "update rank_t warm_state 100.4 100.4 up_frame = Some (?r, counted_state)"
    by (rule update_warm_state)
  have h3: "r_phase ?r = Up" by simp
  have h4: "min_rep_interval warm_state \<le> 100.4 - last_rep_time warm_state"
    by (simp add: warm_state_def)
  from rep_completed_after_down_down_transition_up [OF h1 h2 h3 h4] h1 h2 h4
  show ?thesis by (simp add: warm_state_def)
qed

subsection \<open>The raw label\<close>

text \<open>
  Claim C2. For a frame of exactly 33 landmarks the raw label is the decision of the
  specification's table: the weights of the conditions that hold are summed for \<open>up\<close> and
  for \<open>down\<close> over the wrist, elbow and nose differences, and the label is Up when the
  \<open>up\<close> sum reaches 2, else Down when the \<open>down\<close> sum reaches 2, else Transition. This is
  the label that \<^verbatim>\<open>detect_pushup_phase\<close> appends to the smoothing window.
\<close>

theorem raw_phase_is_weighted_vote:
  assumes "length landmarks = 33"
  shows "raw_phase landmarks =
           Some (spec_decision (spec_wrist_shoulder_diff landmarks)
                   (spec_elbow_shoulder_diff landmarks) (spec_nose_shoulder_diff landmarks))
         \<and> (\<exists>l. detect_pushup_phase rank s landmarks =
               Some (l, s\<lparr>position_history := deque_append 5 (position_history s)
                  (spec_decision (spec_wrist_shoulder_diff landmarks)
                     (spec_elbow_shoulder_diff landmarks) (spec_nose_shoulder_diff landmarks))\<rparr>))"
proof -
  let ?p = "spec_decision (spec_wrist_shoulder_diff landmarks)
              (spec_elbow_shoulder_diff landmarks) (spec_nose_shoulder_diff landmarks)"
  have raw: "raw_phase landmarks = Some ?p"
    using assms
    by (simp add: raw_phase_33 vote_spec_decision spec_wrist_shoulder_diff_def
          spec_elbow_shoulder_diff_def spec_nose_shoulder_diff_def)
  from detect_valid [OF assms raw, of rank s] raw show ?thesis by blast
qed

theorem raw_phase_is_weighted_vote_witness:
  "length down_frame = 33
   \<and> spec_wrist_shoulder_diff down_frame = 0.2
   \<and> spec_elbow_shoulder_diff down_frame = 0.1
   \<and> spec_nose_shoulder_diff down_frame = 0
   \<and> spec_up_indicators 0.2 0.1 0 = 0 \<and> spec_down_indicators 0.2 0.1 0 = 2
   \<and> raw_phase down_frame = Some Down
   \<and> detect_pushup_phase rank_t init down_frame = Some (Down, init\<lparr>position_history := [Down]\<rparr>)"
proof -
  have h: "length down_frame = 33" by (simp add: length_frames)
  have w: "spec_wrist_shoulder_diff down_frame = 0.2"
    by (simp add: spec_wrist_shoulder_diff_def down_frame_def frame_def nth_append)
  have e: "spec_elbow_shoulder_diff down_frame = 0.1"
    by (simp add: spec_elbow_shoulder_diff_def down_frame_def frame_def nth_append)
  have n: "spec_nose_shoulder_diff down_frame = 0"
    by (simp add: spec_nose_shoulder_diff_def down_frame_def frame_def nth_append)
  have u: "spec_up_indicators 0.2 0.1 0 = 0" by (simp add: spec_up_indicators_def)
  have d: "spec_down_indicators 0.2 0.1 0 = 2" by (simp add: spec_down_indicators_def)
  have dec: "spec_decision 0.2 0.1 0 = Down" unfolding spec_decision_def u d by simp
  have det: "detect_pushup_phase rank_t init down_frame
               = Some (Down, init\<lparr>position_history := [Down]\<rparr>)"
    by (simp add: init_def eval_defs)
  have "raw_phase down_frame =
          Some (spec_decision (spec_wrist_shoulder_diff down_frame)
                  (spec_elbow_shoulder_diff down_frame) (spec_nose_shoulder_diff down_frame))"
    using raw_phase_is_weighted_vote [OF h, of rank_t init] by blast
  then have raw: "raw_phase down_frame = Some Down" unfolding w e n dec .
  from h w e n u d raw det show ?thesis by blast
qed

subsection \<open>The smoothed label\<close>

lemma py_last_3_suffix: "py_last_n 3 (pre @ [a, b, c]) = [a, b, c]"
  by (simp add: py_last_n_def)

text \<open>
  Claim C5. When the smoothing window, with the raw label of the frame appended, holds
  at least three labels, so that it ends with some \<open>a, b, c\<close>, the label that
  \<^verbatim>\<open>detect_pushup_phase\<close> returns is one of \<open>a, b, c\<close> and no label occurs more often
  among these three, whatever the earlier entries of the window are; when the three are
  Down, Down, Up the label is Down. (The smoother runs on frames of 33 landmarks; any
  other frame is answered Neutral before it, see C6.)
\<close>

theorem smoothed_label_is_majority:
  assumes "length landmarks = 33"
    and "raw_phase landmarks = Some p"
    and "deque_append 5 (position_history s) p = pre @ [a, b, c]"
  shows "\<exists>l. detect_pushup_phase rank s landmarks
               = Some (l, s\<lparr>position_history := pre @ [a, b, c]\<rparr>)
           \<and> (l = a \<or> l = b \<or> l = c)
           \<and> (\<forall>q. count_list [a, b, c] q \<le> count_list [a, b, c] l)
           \<and> ([a, b, c] = [Down, Down, Up] \<longrightarrow> l = Down)"
proof -
  let ?w = "pre @ [a, b, c]"
  have len: "3 \<le> length (deque_append 5 (position_history s) p)" by (simp add: assms(3))
  from detect_valid [OF assms(1,2), of rank s] len obtain l where
    d: "detect_pushup_phase rank s landmarks = Some (l, s\<lparr>position_history := ?w\<rparr>)"
    and m: "majority rank ?w = Some l"
    by (auto simp: assms(3))
  have "?w \<noteq> []" by simp
  from majority_Some [OF this, of rank] m have
    mem: "l \<in> set [a, b, c]"
    and ge: "\<forall>q. count_list [a, b, c] q \<le> count_list [a, b, c] l"
    by (auto simp: py_last_3_suffix)
  have "l = Down" if "[a, b, c] = [Down, Down, Up]"
  proof -
    have "2 \<le> count_list (py_last_n 3 ?w) Down" by (simp add: py_last_3_suffix that)
    then have "majority rank ?w = Some Down" by (rule majority_of_two)
    with m show ?thesis by simp
  qed
  with d mem ge show ?thesis by auto
qed

theorem smoothed_label_is_majority_witness:
  "length up_frame = 33 \<and> raw_phase up_frame = Some Up
   \<and> deque_append 5 (position_history (init\<lparr>position_history := [Up, Up, Down, Down]\<rparr>)) Up
        = [Up, Up] @ [Down, Down, Up]
   \<and> detect_pushup_phase rank_t (init\<lparr>position_history := [Up, Up, Down, Down]\<rparr>) up_frame
        = Some (Down, init\<lparr>position_history := [Up, Up, Down, Down, Up]\<rparr>)
   \<and> deque_append 5 (position_history (init\<lparr>position_history := [Down, Down, Down, Up]\<rparr>)) Up
        = [Down, Down] @ [Down, Up, Up]
   \<and> detect_pushup_phase rank_t (init\<lparr>position_history := [Down, Down, Down, Up]\<rparr>) up_frame
        = Some (Up, init\<lparr>position_history := [Down, Down, Down, Up, Up]\<rparr>)"
proof -
  let ?s = "init\<lparr>position_history := [Up, Up, Down, Down]\<rparr>"
  let ?t = "init\<lparr>position_history := [Down, Down, Down, Up]\<rparr>"
  have h1: "length up_frame = 33" by (simp add: length_frames)
  have h2: "raw_phase up_frame = Some Up" by (rule raw_up_frame)
  have h3: "deque_append 5 (position_history ?s) Up = [Up, Up] @ [Down, Down, Up]"
    by (simp add: deque_append_def)
  have h4: "deque_append 5 (position_history ?t) Up = [Down, Down] @ [Down, Up, Up]"
    by (simp add: deque_append_def)
  have "\<exists>l. detect_pushup_phase rank_t ?s up_frame
               = Some (l, ?s\<lparr>position_history := [Up, Up] @ [Down, Down, Up]\<rparr>) \<and> l = Down"
    using smoothed_label_is_majority [OF h1 h2 h3, of rank_t] by auto
  then have d1: "detect_pushup_phase rank_t ?s up_frame
        = Some (Down, init\<lparr>position_history := [Up, Up, Down, Down, Up]\<rparr>)"
    by auto
  from smoothed_label_is_majority [OF h1 h2 h4, of rank_t] obtain l where
    dl: "detect_pushup_phase rank_t ?t up_frame
           = Some (l, ?t\<lparr>position_history := [Down, Down] @ [Down, Up, Up]\<rparr>)"
    and l: "l = Down \<or> l = Up \<or> l = Up"
    and ge: "\<forall>q. count_list [Down, Up, Up] q \<le> count_list [Down, Up, Up] l"
    by blast
  from ge have "count_list [Down, Up, Up] Up \<le> count_list [Down, Up, Up] l" by blast
  with l have "l = Up" by auto
  with dl have d2: "detect_pushup_phase rank_t ?t up_frame
        = Some (Up, init\<lparr>position_history := [Down, Down, Down, Up, Up]\<rparr>)"
    by simp
  from h1 h2 h3 h4 d1 d2 show ?thesis by blast
qed

subsection \<open>Frames of the wrong length, points of the wrong shape\<close>

lemma raw_phase_untyped_pairs:
  assumes "length landmarks = 33" and "\<forall>pt\<in>set landmarks. 2 \<le> length pt"
  shows "raw_phase_untyped landmarks = raw_phase (map to_pair landmarks)"
proof -
  have y: "Suc 0 < length (landmarks ! i)" if "i < 33" for i
  proof -
    have "landmarks ! i \<in> set landmarks" using that assms(1) by simp
    with assms(2) have "2 \<le> length (landmarks ! i)" by blast
    then show ?thesis by simp
  qed
  show ?thesis
    using assms(1)
    by (simp add: raw_phase_untyped_def raw_phase_33 py_index_def y to_pair_def Let_def)
qed

lemma detect_untyped_pairs:
  assumes "length landmarks \<noteq> 33 \<or> (\<forall>pt\<in>set landmarks. 2 \<le> length pt)"
  shows "detect_pushup_phase_untyped rank s landmarks
           = detect_pushup_phase rank s (map to_pair landmarks)"
proof (cases "length landmarks = 33")
  case True
  with assms have "raw_phase_untyped landmarks = raw_phase (map to_pair landmarks)"
    by (simp add: raw_phase_untyped_pairs)
  then show ?thesis by (simp add: detect_pushup_phase_untyped_def detect_pushup_phase_def)
next
  case False
  then show ?thesis by (simp add: detect_pushup_phase_untyped_def detect_pushup_phase_def)
qed

lemma update_untyped_pairs:
  assumes "length landmarks \<noteq> 33 \<or> (\<forall>pt\<in>set landmarks. 2 \<le> length pt)"
  shows "update_untyped rank s now now2 landmarks
           = update rank s now now2 (map to_pair landmarks)"
  by (simp add: update_untyped_def update_def detect_untyped_pairs [OF assms])

text \<open>On input typed as annotated the two embeddings are the same function.\<close>

lemma update_untyped_of_pair:
  "update_untyped rank s now now2 (map of_pair landmarks) = update rank s now now2 landmarks"
proof -
  have "\<forall>pt\<in>set (map of_pair landmarks). 2 \<le> length pt" by (simp add: of_pair_def)
  then have "update_untyped rank s now now2 (map of_pair landmarks)
               = update rank s now now2 (map to_pair (map of_pair landmarks))"
    by (simp add: update_untyped_pairs)
  moreover have "map to_pair (map of_pair landmarks) = landmarks"
    by (simp add: to_pair_def of_pair_def o_def)
  ultimately show ?thesis by simp
qed

lemma update_wrong_length:
  assumes "length landmarks \<noteq> 33"
  shows "\<exists>r s'. update rank s now now2 landmarks = Some (r, s') \<and> r_phase r = Neutral"
proof -
  from update_shape [of rank s now now2 landmarks] obtain r s' p w where
    "update rank s now now2 landmarks = Some (r, s')" "r_phase r = p"
    "detect_pushup_phase rank (s\<lparr>last_phase := current_phase s\<rparr>) landmarks
       = Some (p, s\<lparr>last_phase := current_phase s, position_history := w\<rparr>)"
    by force
  with assms show ?thesis by (simp add: detect_invalid)
qed

text \<open>
  Claim C6, as the code has it. A sequence whose length is not 33 is classified Neutral
  without an exception and without a change to the detector, whatever its points are, and
  \<^verbatim>\<open>update\<close> returns a result with the label Neutral for it. For a sequence of any
  length whose points all have the two coordinates \<^verbatim>\<open>(x, y)\<close>, \<^verbatim>\<open>update\<close> returns a
  result whose fields are the label, the count and the history of the detector it leaves
  behind.
\<close>

theorem wrong_length_is_neutral_and_update_returns_on_pairs:
  "(length landmarks \<noteq> 33 \<longrightarrow>
      detect_pushup_phase_untyped rank s landmarks = Some (Neutral, s)
      \<and> (\<exists>r s'. update_untyped rank s now now2 landmarks = Some (r, s') \<and> r_phase r = Neutral))
   \<and> ((\<forall>pt\<in>set landmarks. 2 \<le> length pt) \<longrightarrow>
        (\<exists>r s'. update_untyped rank s now now2 landmarks = Some (r, s')
           \<and> r_phase r = current_phase s' \<and> r_rep_count r = rep_count s'
           \<and> r_phase_history r = phase_history s'))"
proof (intro conjI impI)
  assume len: "length landmarks \<noteq> 33"
  then show "detect_pushup_phase_untyped rank s landmarks = Some (Neutral, s)"
    by (simp add: detect_pushup_phase_untyped_def)
  from len have "length (map to_pair landmarks) \<noteq> 33" by simp
  from update_wrong_length [OF this, of rank s now now2] len
  show "\<exists>r s'. update_untyped rank s now now2 landmarks = Some (r, s') \<and> r_phase r = Neutral"
    by (simp add: update_untyped_pairs)
next
  assume pairs: "\<forall>pt\<in>set landmarks. 2 \<le> length pt"
  obtain r s' where u: "update rank s now now2 (map to_pair landmarks) = Some (r, s')"
    using update_shape [of rank s now now2 "map to_pair landmarks"] by blast
  with pairs have "update_untyped rank s now now2 landmarks = Some (r, s')"
    by (simp add: update_untyped_pairs)
  with update_effect(1,2,3) [OF u]
  show "\<exists>r s'. update_untyped rank s now now2 landmarks = Some (r, s')
           \<and> r_phase r = current_phase s' \<and> r_rep_count r = rep_count s'
           \<and> r_phase_history r = phase_history s'"
    by blast
qed

theorem wrong_length_is_neutral_and_update_returns_on_pairs_witness:
  "length [[0.5::real]] \<noteq> 33
   \<and> detect_pushup_phase_untyped rank_t init [[0.5]] = Some (Neutral, init)
   \<and> update_untyped rank_t init 100 100 [[0.5]] =
       Some (\<lparr>r_phase = Neutral, r_rep_count = 0, r_rep_completed = False,
              r_phase_history = [Neutral]\<rparr>,
             init\<lparr>phase_history := [Neutral]\<rparr>)
   \<and> list_all (\<lambda>pt. 2 \<le> length pt) (map of_pair down_frame)
   \<and> update_untyped rank_t init 100 100 (map of_pair down_frame) =
       Some (\<lparr>r_phase = Down, r_rep_count = 0, r_rep_completed = False,
              r_phase_history = [Down]\<rparr>,
             init\<lparr>last_phase := Neutral, position_history := [Down], current_phase := Down,
                   phase_history := [Down]\<rparr>)"
proof -
  have h1: "length [[0.5::real]] \<noteq> 33" by simp
  have h2: "\<forall>pt\<in>set (map of_pair down_frame). 2 \<le> length pt" by (simp add: of_pair_def)
  have u1: "update_untyped rank_t init 100 100 [[0.5]] =
       Some (\<lparr>r_phase = Neutral, r_rep_count = 0, r_rep_completed = False,
              r_phase_history = [Neutral]\<rparr>,
             init\<lparr>phase_history := [Neutral]\<rparr>)"
    by (simp add: init_def update_untyped_def detect_pushup_phase_untyped_def deque_append_def
          check_rep_completion_def)
  have u2: "update_untyped rank_t init 100 100 (map of_pair down_frame) =
       Some (\<lparr>r_phase = Down, r_rep_count = 0, r_rep_completed = False,
              r_phase_history = [Down]\<rparr>,
             init\<lparr>last_phase := Neutral, position_history := [Down], current_phase := Down,
                   phase_history := [Down]\<rparr>)"
    unfolding update_untyped_of_pair by (simp add: init_def eval_defs)
  from wrong_length_is_neutral_and_update_returns_on_pairs
         [of "[[0.5]]" rank_t init 100 100]
       wrong_length_is_neutral_and_update_returns_on_pairs
         [of "map of_pair down_frame" rank_t init 100 100]
       h1 h2 u1 u2
  show ?thesis unfolding list_all_iff by blast
qed

text \<open>
  Claim C6 as the specification states it fails: on thirty-three points without a second
  coordinate the read \<^verbatim>\<open>left_wrist[1]\<close> raises IndexError, and \<^verbatim>\<open>update\<close> returns no
  result.
\<close>

theorem update_raises_on_points_without_y_counterexample:
  "update_untyped rank_t init 100 100 no_y_frame = None"
  by (simp add: update_untyped_def detect_pushup_phase_untyped_def raw_phase_untyped_def
        no_y_frame_def py_index_def)

subsection \<open>The snapshot of a completed repetition\<close>

text \<open>
  Claim C10. Whenever \<^verbatim>\<open>update\<close> returns \<^verbatim>\<open>rep_completed = True\<close>, the history
  snapshot in the result is empty: \<^verbatim>\<open>count_rep\<close> has cleared the history before the
  result is built.
\<close>

theorem completed_rep_has_empty_snapshot:
  assumes "update rank s now now2 landmarks = Some (r, s')"
    and "r_rep_completed r"
  shows "r_phase_history r = [] \<and> phase_history s' = []"
  using update_effect(3,5) [OF assms(1)] assms(2) by simp

theorem completed_rep_has_empty_snapshot_witness:
  "update rank_t next_state 101.5 101.5 up_frame =
     Some (\<lparr>r_phase = Up, r_rep_count = 2, r_rep_completed = True, r_phase_history = []\<rparr>,
           \<lparr> rep_count = 2, current_phase = Up, last_phase = Transition,
             phase_history = [], last_rep_time = 101.5,
             min_rep_interval = 1, position_history = [Down, Down, Transition, Up, Up] \<rparr>)"
proof -
  let ?r = "\<lparr>r_phase = Up, r_rep_count = 2, r_rep_completed = True, r_phase_history = []\<rparr>"
  let ?s = "\<lparr> rep_count = 2, current_phase = Up, last_phase = Transition,
             phase_history = [], last_rep_time = 101.5,
             min_rep_interval = 1, position_history = [Down, Down, Transition, Up, Up] \<rparr>"
  have h1: "update rank_t next_state 101.5 101.5 up_frame = Some (?r, ?s)"
    by (rule update_next_state_late)
  have h2: "r_rep_completed ?r" by simp
  from completed_rep_has_empty_snapshot [OF h1 h2] h1 show ?thesis by simp
qed

subsection \<open>Sessions\<close>

lemma run_Cons_Some:
  assumes "update rank s now now2 landmarks = Some (r, s1)"
    and "run rank s1 rest = Some (rs, s2)"
  shows "run rank s ((now, now2, landmarks) # rest) = Some (r # rs, s2)"
  using assms by simp

lemma run_Cons_D:
  assumes "run rank s ((now, now2, landmarks) # rest) = Some (out, s2)"
  shows "\<exists>r s1 rs. update rank s now now2 landmarks = Some (r, s1)
           \<and> run rank s1 rest = Some (rs, s2) \<and> out = r # rs"
  using assms by (auto split: bind_splits)

lemma run_total: "\<exists>rs s'. run rank s inputs = Some (rs, s')"
proof (induction inputs arbitrary: s)
  case Nil
  show ?case by simp
next
  case (Cons x rest)
  obtain now now2 landmarks where x: "x = (now, now2, landmarks)" by (cases x) auto
  obtain r s1 where u: "update rank s now now2 landmarks = Some (r, s1)"
    using update_shape [of rank s now now2 landmarks] by blast
  obtain rs s2 where "run rank s1 rest = Some (rs, s2)" using Cons.IH by blast
  with u show ?case using run_Cons_Some x by blast
qed

lemma run_quiet:
  assumes "run rank s inputs = Some (rs, s')"
    and "\<forall>r\<in>set rs. \<not> r_rep_completed r"
  shows "rep_count s' = rep_count s \<and> last_rep_time s' = last_rep_time s
         \<and> min_rep_interval s' = min_rep_interval s"
  using assms
proof (induction inputs arbitrary: s rs)
  case Nil
  then show ?case by simp
next
  case (Cons x rest)
  obtain now now2 landmarks where x: "x = (now, now2, landmarks)" by (cases x) auto
  from Cons.prems(1) obtain r s1 rs' where
    u: "update rank s now now2 landmarks = Some (r, s1)"
    and rest: "run rank s1 rest = Some (rs', s')" and rs: "rs = r # rs'"
    unfolding x by (blast dest: run_Cons_D)
  from Cons.prems(2) rs have q: "\<not> r_rep_completed r" and qs: "\<forall>r\<in>set rs'. \<not> r_rep_completed r"
    by simp_all
  from Cons.IH [OF rest qs] update_effect(4) [OF u] update_effect(6) [OF u q]
  show ?case by simp
qed

subsection \<open>Debounce\<close>

text \<open>
  Claim C4. After an update that counted a repetition, as long as no further repetition
  is counted, an update whose clock reading is less than 1.0 s after the reading taken
  when that repetition was counted returns \<^verbatim>\<open>rep_completed = False\<close> and leaves the
  count as it is, whatever the history of labels, so also when the history meets the
  completion pattern: of the two updates only the first reports a repetition.
\<close>

theorem debounce_suppresses_second_completion:
  assumes "min_rep_interval s = 1.0"
    and "update rank s now now2 landmarks = Some (r, s1)"
    and "r_rep_completed r"
    and "run rank s1 between = Some (rs, s2)"
    and "\<forall>r'\<in>set rs. \<not> r_rep_completed r'"
    and "now' - now2 < 1.0"
  shows "\<exists>r2 s3. update rank s2 now' now2' landmarks' = Some (r2, s3)
           \<and> \<not> r_rep_completed r2 \<and> rep_count s3 = rep_count s2
           \<and> r_rep_count r2 = rep_count s2"
proof -
  have "last_rep_time s1 = now2" and "min_rep_interval s1 = 1"
    using update_effect(4,5) [OF assms(2)] assms(1,3) by simp_all
  with run_quiet [OF assms(4,5)] have t: "last_rep_time s2 = now2" "min_rep_interval s2 = 1"
    by simp_all
  obtain r2 s3 where u: "update rank s2 now' now2' landmarks' = Some (r2, s3)"
    using update_shape [of rank s2 now' now2' landmarks'] by blast
  let ?p = "pushed s2 (r_phase r2) (position_history s3)"
  have "now' - last_rep_time ?p < min_rep_interval ?p"
    using assms(6) t by (simp add: pushed_def)
  then have "check_rep_completion ?p now' now2' = (False, ?p)" by (rule check_debounce)
  with update_effect(7) [OF u] have q: "\<not> r_rep_completed r2" by simp
  from update_effect(6) [OF u q] update_effect(2) [OF u] u q show ?thesis by simp
qed

theorem debounce_suppresses_second_completion_witness:
  "min_rep_interval warm_state = 1.0
   \<and> update rank_t warm_state 100.4 100.4 up_frame =
        Some (\<lparr>r_phase = Up, r_rep_count = 1, r_rep_completed = True, r_phase_history = []\<rparr>,
              counted_state)
   \<and> (\<exists>rs. run rank_t counted_state next_rep = Some (rs, next_state)
             \<and> (\<forall>r'\<in>set rs. \<not> r_rep_completed r'))
   \<and> (100.9::real) - 100.4 < 1.0
   \<and> update rank_t next_state 100.9 100.9 up_frame =
        Some (\<lparr>r_phase = Up, r_rep_count = 1, r_rep_completed = False,
               r_phase_history = [Up, Down, Down, Transition, Up]\<rparr>,
              pushed next_state Up [Down, Down, Transition, Up, Up])"
proof -
  let ?r = "\<lparr>r_phase = Up, r_rep_count = 1, r_rep_completed = True, r_phase_history = []\<rparr>"
  let ?rs = "[\<lparr>r_phase = Up, r_rep_count = 1, r_rep_completed = False, r_phase_history = [Up]\<rparr>,
            \<lparr>r_phase = Down, r_rep_count = 1, r_rep_completed = False,
               r_phase_history = [Up, Down]\<rparr>,
            \<lparr>r_phase = Down, r_rep_count = 1, r_rep_completed = False,
               r_phase_history = [Up, Down, Down]\<rparr>,
            \<lparr>r_phase = Transition, r_rep_count = 1, r_rep_completed = False,
               r_phase_history = [Up, Down, Down, Transition]\<rparr>]"
  have h1: "min_rep_interval warm_state = 1.0" by (simp add: warm_state_def)
  have h2: "update rank_t warm_state 100.4 100.4 up_frame = Some (?r, counted_state)"
    by (rule update_warm_state)
  have h3: "r_rep_completed ?r" by simp
  have h4: "run rank_t counted_state next_rep = Some (?rs, next_state)"
    by (rule run_next_rep)
  have h5: "\<forall>r'\<in>set ?rs. \<not> r_rep_completed r'" by simp
  have h6: "(100.9::real) - 100.4 < 1.0" by simp
  have u: "update rank_t next_state 100.9 100.9 up_frame =
        Some (\<lparr>r_phase = Up, r_rep_count = 1, r_rep_completed = False,
               r_phase_history = [Up, Down, Down, Transition, Up]\<rparr>,
              pushed next_state Up [Down, Down, Transition, Up, Up])"
    by (simp add: next_state_def pushed_def eval_defs)
  from debounce_suppresses_second_completion
         [OF h1 h2 h3 h4 h5 h6, where now2' = "100.9" and landmarks' = up_frame]
    h1 h2 h4 h5 h6 u
  show ?thesis by blast
qed

subsection \<open>A constant label\<close>

text \<open>
  Claim C8. In a session that starts with a history holding no label other than \<open>l\<close>
  (the empty history of a new or reset detector among them) and in which every update
  produces the label \<open>l\<close>, no update returns \<^verbatim>\<open>rep_completed = True\<close>: every history
  snapshot holds \<open>l\<close> only and has no transition at all, and the count stays as it was.
\<close>

theorem constant_label_never_completes:
  assumes "run rank s inputs = Some (rs, s')"
    and "\<forall>q\<in>set (phase_history s). q = l"
    and "\<forall>r\<in>set rs. r_phase r = l"
  shows "(\<forall>r\<in>set rs. \<not> r_rep_completed r \<and> transitions (r_phase_history r) = 0)
         \<and> rep_count s' = rep_count s"
  using assms
proof (induction inputs arbitrary: s rs)
  case Nil
  then show ?case by simp
next
  case (Cons x rest)
  obtain now now2 landmarks where x: "x = (now, now2, landmarks)" by (cases x) auto
  from Cons.prems(1) obtain r s1 rs' where
    u: "update rank s now now2 landmarks = Some (r, s1)"
    and rest: "run rank s1 rest = Some (rs', s')" and rs: "rs = r # rs'"
    unfolding x by (blast dest: run_Cons_D)
  from Cons.prems(3) rs have l: "r_phase r = l" and ls: "\<forall>r\<in>set rs'. r_phase r = l"
    by simp_all
  let ?p = "pushed s l (position_history s1)"
  have hp: "\<forall>q\<in>set (phase_history ?p). q = l"
    using Cons.prems(2) set_deque_append [of 10 "phase_history s" l]
    by (auto simp: pushed_def)
  then have "check_rep_completion ?p now now2 = (False, ?p)" by (rule check_constant)
  with update_effect(7) [OF u] l have q: "\<not> r_rep_completed r" and s1: "s1 = ?p"
    by simp_all
  have h1: "\<forall>q\<in>set (phase_history s1). q = l" using hp s1 by simp
  then have "transitions (phase_history s1) = 0" by (rule transitions_constant)
  then have t: "transitions (r_phase_history r) = 0" using update_effect(3) [OF u] by simp
  have c: "rep_count s1 = rep_count s" using update_effect(6) [OF u q] by simp
  from Cons.IH [OF rest h1 ls] q t c rs show ?case by simp
qed

theorem constant_label_never_completes_witness:
  "(\<exists>rs s'. run rank_t init down_batch = Some (rs, s')
       \<and> (\<forall>r\<in>set rs. r_phase r = Down)
       \<and> (\<forall>r\<in>set rs. \<not> r_rep_completed r \<and> transitions (r_phase_history r) = 0)
       \<and> rep_count s' = rep_count init)
   \<and> phase_history init = []"
proof -
  obtain rs s' where h1: "run rank_t init down_batch = Some (rs, s')"
    using run_total [of rank_t init down_batch] by blast
  have h2: "\<forall>q\<in>set (phase_history init). q = Down" by (simp add: init_def)
  have h3: "\<forall>r\<in>set rs. r_phase r = Down"
    using h1 by (auto simp: down_batch_def init_def eval_defs)
  have h4: "phase_history init = []" by (simp add: init_def)
  from constant_label_never_completes [OF h1 h2 h3] h1 h3 h4 show ?thesis by blast
qed

subsection \<open>The count never goes down\<close>

lemma update_count_step:
  "\<exists>r s'. update rank s now now2 landmarks = Some (r, s')
     \<and> (rep_count s' = rep_count s \<or> rep_count s' = rep_count s + 1)"
proof -
  obtain r s' where u: "update rank s now now2 landmarks = Some (r, s')"
    using update_shape [of rank s now now2 landmarks] by blast
  from update_effect(5,6) [OF u] u show ?thesis by (cases "r_rep_completed r") auto
qed

lemma run_count_monotone:
  "\<exists>rs s'. run rank s inputs = Some (rs, s') \<and> rep_count s \<le> rep_count s'
     \<and> sorted (map r_rep_count rs)
     \<and> (\<forall>r\<in>set rs. rep_count s \<le> r_rep_count r \<and> r_rep_count r \<le> rep_count s')"
proof (induction inputs arbitrary: s)
  case Nil
  show ?case by simp
next
  case (Cons x rest)
  obtain now now2 landmarks where x: "x = (now, now2, landmarks)" by (cases x) auto
  obtain r s1 where u: "update rank s now now2 landmarks = Some (r, s1)"
    and step: "rep_count s1 = rep_count s \<or> rep_count s1 = rep_count s + 1"
    using update_count_step [of rank s now now2 landmarks] by blast
  obtain rs s2 where rest: "run rank s1 rest = Some (rs, s2)"
    and le: "rep_count s1 \<le> rep_count s2" and sorted: "sorted (map r_rep_count rs)"
    and bounds: "\<forall>r\<in>set rs. rep_count s1 \<le> r_rep_count r \<and> r_rep_count r \<le> rep_count s2"
    using Cons.IH [of s1] by blast
  have r: "r_rep_count r = rep_count s1" using update_effect(2) [OF u] .
  have "run rank s (x # rest) = Some (r # rs, s2)"
    unfolding x using u rest by (rule run_Cons_Some)
  moreover have "rep_count s \<le> rep_count s2" using step le by auto
  moreover have "sorted (map r_rep_count (r # rs))" using sorted bounds r by auto
  moreover have "\<forall>r'\<in>set (r # rs). rep_count s \<le> r_rep_count r' \<and> r_rep_count r' \<le> rep_count s2"
    using bounds r step le by auto
  ultimately show ?case by blast
qed

text \<open>
  Claim C9. Every \<^verbatim>\<open>update\<close> returns and leaves the count as it was or one higher.
  So over any session the count ends no lower than it started and the counts reported
  by the updates never go down; for a session of a new detector all of them are at
  least 0.
\<close>

theorem rep_count_monotone_nonnegative:
  "(\<exists>r s'. update rank s now now2 landmarks = Some (r, s')
       \<and> (rep_count s' = rep_count s \<or> rep_count s' = rep_count s + 1))
   \<and> (\<exists>rs s'. run rank s inputs = Some (rs, s') \<and> rep_count s \<le> rep_count s'
         \<and> sorted (map r_rep_count rs))
   \<and> (\<exists>rs s'. run rank init inputs = Some (rs, s') \<and> 0 \<le> rep_count s'
         \<and> (\<forall>r\<in>set rs. 0 \<le> r_rep_count r))"
proof -
  have "rep_count init = 0" by (simp add: init_def)
  with run_count_monotone [of rank init inputs]
  have "\<exists>rs s'. run rank init inputs = Some (rs, s') \<and> 0 \<le> rep_count s'
         \<and> (\<forall>r\<in>set rs. 0 \<le> r_rep_count r)"
    by auto
  moreover have "\<exists>rs s'. run rank s inputs = Some (rs, s') \<and> rep_count s \<le> rep_count s'
         \<and> sorted (map r_rep_count rs)"
    using run_count_monotone [of rank s inputs] by blast
  ultimately show ?thesis using update_count_step [of rank s now now2 landmarks] by blast
qed

theorem rep_count_monotone_nonnegative_witness:
  "update rank_t warm_state 100.4 100.4 up_frame =
     Some (\<lparr>r_phase = Up, r_rep_count = 1, r_rep_completed = True, r_phase_history = []\<rparr>,
           counted_state)
   \<and> rep_count counted_state = rep_count warm_state + 1
   \<and> (\<exists>rs. run rank_t init warm_up = Some (rs, warm_state) \<and> map r_rep_count rs = [0, 0, 0, 0])
   \<and> rep_count warm_state = 0"
proof -
  have c: "rep_count counted_state = rep_count warm_state + 1"
    by (simp add: counted_state_def warm_state_def)
  have w: "rep_count warm_state = 0" by (simp add: warm_state_def)
  have "\<exists>rs s'. run rank_t init warm_up = Some (rs, s') \<and> 0 \<le> rep_count s'
         \<and> (\<forall>r\<in>set rs. 0 \<le> r_rep_count r)"
    using rep_count_monotone_nonnegative [of rank_t warm_state "100.4" "100.4" up_frame warm_up]
    by blast
  then have "\<exists>rs. run rank_t init warm_up = Some (rs, warm_state)
               \<and> map r_rep_count rs = [0, 0, 0, 0]"
    by (simp add: run_warm_up)
  with update_warm_state c w show ?thesis by blast
qed

subsection \<open>reset\<close>

lemma agree_pushed: "agree a b \<Longrightarrow> agree (pushed a p w) (pushed b p w)"
  by (simp add: agree_def pushed_def)

lemma check_agree:
  assumes "agree a b" and "check_rep_completion a now now2 = (c, a')"
  shows "\<exists>b'. check_rep_completion b now now2 = (c, b') \<and> agree a' b'"
  using assms
  by (auto simp: agree_def check_rep_completion_def Let_def count_rep_def split: if_splits)

lemma update_agree:
  assumes "agree a b" and "update rank a now now2 landmarks = Some (r, a')"
  shows "\<exists>b'. update rank b now now2 landmarks = Some (r, b') \<and> agree a' b'"
proof -
  from update_shape [of rank a now now2 landmarks] assms(2) obtain p w c where
    r: "r = \<lparr> r_phase = p, r_rep_count = rep_count a', r_rep_completed = c,
               r_phase_history = phase_history a' \<rparr>"
    and d: "detect_pushup_phase rank (a\<lparr>last_phase := current_phase a\<rparr>) landmarks
             = Some (p, a\<lparr>last_phase := current_phase a, position_history := w\<rparr>)"
    and c: "check_rep_completion (pushed a p w) now now2 = (c, a')"
    by auto
  have "position_history (a\<lparr>last_phase := current_phase a\<rparr>)
          = position_history (b\<lparr>last_phase := current_phase b\<rparr>)"
    using assms(1) by (simp add: agree_def)
  from detect_window_only [OF this d]
  have db: "detect_pushup_phase rank (b\<lparr>last_phase := current_phase b\<rparr>) landmarks
             = Some (p, b\<lparr>last_phase := current_phase b, position_history := w\<rparr>)" .
  from check_agree [OF agree_pushed [OF assms(1)] c] obtain b' where
    cb: "check_rep_completion (pushed b p w) now now2 = (c, b')" and ag: "agree a' b'"
    by blast
  have "update rank b now now2 landmarks =
     Some (\<lparr> r_phase = p, r_rep_count = rep_count b', r_rep_completed = c,
             r_phase_history = phase_history b' \<rparr>, b')"
    using db cb by (rule update_via_detect)
  with ag r show ?thesis by (simp add: agree_def)
qed

lemma run_agree:
  assumes "agree a b" and "run rank a inputs = Some (rs, a')"
  shows "\<exists>b'. run rank b inputs = Some (rs, b') \<and> agree a' b'"
  using assms
proof (induction inputs arbitrary: a b rs)
  case Nil
  then show ?case by simp
next
  case (Cons x rest)
  obtain now now2 landmarks where x: "x = (now, now2, landmarks)" by (cases x) auto
  from Cons.prems(2) obtain r a1 rs' where
    u: "update rank a now now2 landmarks = Some (r, a1)"
    and rest: "run rank a1 rest = Some (rs', a')" and rs: "rs = r # rs'"
    unfolding x by (blast dest: run_Cons_D)
  from update_agree [OF Cons.prems(1) u] obtain b1 where
    ub: "update rank b now now2 landmarks = Some (r, b1)" and ag: "agree a1 b1"
    by blast
  from Cons.IH [OF ag rest] obtain b' where
    rb: "run rank b1 rest = Some (rs', b')" and ag': "agree a' b'"
    by blast
  from run_Cons_Some [OF ub rb] ag' rs x show ?case by simp
qed

text \<open>
  Claim C7. \<^verbatim>\<open>reset\<close> sets the count to 0, empties the history and the smoothing
  window, sets the time of the last repetition to 0 and leaves \<^verbatim>\<open>min_rep_interval\<close> as
  it is. For a detector that still has the interval given by the constructor (no method
  changes it), every session after \<^verbatim>\<open>reset\<close> returns the results that the same session
  returns on a new detector.
\<close>

theorem reset_behaves_like_new:
  assumes "min_rep_interval s = min_rep_interval init"
  shows "rep_count (reset s) = 0 \<and> phase_history (reset s) = []
         \<and> position_history (reset s) = [] \<and> last_rep_time (reset s) = 0
         \<and> min_rep_interval (reset s) = min_rep_interval s
         \<and> (\<exists>rs a b. run rank (reset s) inputs = Some (rs, a)
                    \<and> run rank init inputs = Some (rs, b))"
proof -
  have ag: "agree (reset s) init" using assms by (simp add: agree_def reset_def init_def)
  obtain rs a where a: "run rank (reset s) inputs = Some (rs, a)"
    using run_total [of rank "reset s" inputs] by blast
  from run_agree [OF ag a] obtain b where "run rank init inputs = Some (rs, b)" by blast
  with a show ?thesis by (auto simp: reset_def)
qed

theorem reset_behaves_like_new_witness:
  "min_rep_interval counted_state = min_rep_interval init
   \<and> reset counted_state = init\<lparr>current_phase := Up, last_phase := Transition\<rparr>
   \<and> reset counted_state \<noteq> init
   \<and> (\<exists>a. run rank_t (reset counted_state) warm_up =
        Some ([\<lparr>r_phase = Down, r_rep_count = 0, r_rep_completed = False,
                 r_phase_history = [Down]\<rparr>,
               \<lparr>r_phase = Down, r_rep_count = 0, r_rep_completed = False,
                  r_phase_history = [Down, Down]\<rparr>,
               \<lparr>r_phase = Down, r_rep_count = 0, r_rep_completed = False,
                  r_phase_history = [Down, Down, Down]\<rparr>,
               \<lparr>r_phase = Transition, r_rep_count = 0, r_rep_completed = False,
                  r_phase_history = [Down, Down, Down, Transition]\<rparr>], a))"
proof -
  have h: "min_rep_interval counted_state = min_rep_interval init"
    by (simp add: counted_state_def init_def)
  have e: "reset counted_state = init\<lparr>current_phase := Up, last_phase := Transition\<rparr>"
    by (simp add: reset_def counted_state_def init_def)
  have n: "reset counted_state \<noteq> init"
    by (simp add: reset_def counted_state_def init_def)
  from reset_behaves_like_new [OF h, of rank_t warm_up] h e n show ?thesis
    by (auto simp: run_warm_up)
qed

subsection \<open>Five frames down, five frames up\<close>

lemma down_up_run:
  assumes "length d1 = 33" "raw_phase d1 = Some Down" "length d2 = 33" "raw_phase d2 = Some Down"
    "length d3 = 33" "raw_phase d3 = Some Down" "length d4 = 33" "raw_phase d4 = Some Down"
    "length d5 = 33" "raw_phase d5 = Some Down"
    and "length u1 = 33" "raw_phase u1 = Some Up" "length u2 = 33" "raw_phase u2 = Some Up"
    "length u3 = 33" "raw_phase u3 = Some Up" "length u4 = 33" "raw_phase u4 = Some Up"
    "length u5 = 33" "raw_phase u5 = Some Up"
  shows "\<exists>rs s'. run rank init
           [(a1, b1, d1), (a2, b2, d2), (a3, b3, d3), (a4, b4, d4), (a5, b5, d5),
            (a6, b6, u1), (a7, b7, u2), (a8, b8, u3), (a9, b9, u4), (a10, b10, u5)]
             = Some (rs, s')
     \<and> rep_count s' = 0 \<and> (\<forall>r\<in>set rs. \<not> r_rep_completed r)
     \<and> phase_history s' = [Down, Down, Down, Down, Down, Down, Up, Up, Up, Up]"
  using assms
  by (simp add: init_def update_def detect_pushup_phase_def deque_append_def Let_def
        check_rep_completion_def py_last_n_def majority_hd majority_last
        count_rep_def transitions_simps)

lemma list_of_length_5:
  assumes "length xs = 5"
  obtains x1 x2 x3 x4 x5 where "xs = [x1, x2, x3, x4, x5]"
  using assms by (auto simp: eval_nat_numeral length_Suc_conv)

text \<open>
  Claim C3, as the code has it. On a new detector, five frames of 33 landmarks with the
  raw label Down followed by five with the raw label Up leave the count at 0, whatever
  the clock readings, more or less than 1.0 s between the batches: the smoothed labels
  go from Down to Up in one step, a single transition where two are required, so no
  update returns \<^verbatim>\<open>rep_completed = True\<close>.
\<close>

theorem down_batch_then_up_batch_counts_nothing:
  assumes "length ds = 5" and "length us = 5"
    and "\<forall>(now, now2, landmarks)\<in>set ds. length landmarks = 33 \<and> raw_phase landmarks = Some Down"
    and "\<forall>(now, now2, landmarks)\<in>set us. length landmarks = 33 \<and> raw_phase landmarks = Some Up"
  shows "\<exists>rs s'. run rank init (ds @ us) = Some (rs, s') \<and> rep_count s' = 0
           \<and> (\<forall>r\<in>set rs. \<not> r_rep_completed r)
           \<and> transitions (phase_history s') = 1"
proof -
  from assms(1) obtain x1 x2 x3 x4 x5 where ds: "ds = [x1, x2, x3, x4, x5]"
    by (rule list_of_length_5)
  from assms(2) obtain y1 y2 y3 y4 y5 where us: "us = [y1, y2, y3, y4, y5]"
    by (rule list_of_length_5)
  obtain a1 b1 d1 where x1: "x1 = (a1, b1, d1)" by (cases x1) auto
  obtain a2 b2 d2 where x2: "x2 = (a2, b2, d2)" by (cases x2) auto
  obtain a3 b3 d3 where x3: "x3 = (a3, b3, d3)" by (cases x3) auto
  obtain a4 b4 d4 where x4: "x4 = (a4, b4, d4)" by (cases x4) auto
  obtain a5 b5 d5 where x5: "x5 = (a5, b5, d5)" by (cases x5) auto
  obtain a6 b6 u1 where y1: "y1 = (a6, b6, u1)" by (cases y1) auto
  obtain a7 b7 u2 where y2: "y2 = (a7, b7, u2)" by (cases y2) auto
  obtain a8 b8 u3 where y3: "y3 = (a8, b8, u3)" by (cases y3) auto
  obtain a9 b9 u4 where y4: "y4 = (a9, b9, u4)" by (cases y4) auto
  obtain a10 b10 u5 where y5: "y5 = (a10, b10, u5)" by (cases y5) auto
  note xs = x1 x2 x3 x4 x5 y1 y2 y3 y4 y5
  have d: "length d1 = 33" "raw_phase d1 = Some Down" "length d2 = 33" "raw_phase d2 = Some Down"
    "length d3 = 33" "raw_phase d3 = Some Down" "length d4 = 33" "raw_phase d4 = Some Down"
    "length d5 = 33" "raw_phase d5 = Some Down"
    using assms(3) by (simp_all add: ds xs)
  have u: "length u1 = 33" "raw_phase u1 = Some Up" "length u2 = 33" "raw_phase u2 = Some Up"
    "length u3 = 33" "raw_phase u3 = Some Up" "length u4 = 33" "raw_phase u4 = Some Up"
    "length u5 = 33" "raw_phase u5 = Some Up"
    using assms(4) by (simp_all add: us xs)
  have "ds @ us = [(a1, b1, d1), (a2, b2, d2), (a3, b3, d3), (a4, b4, d4), (a5, b5, d5),
            (a6, b6, u1), (a7, b7, u2), (a8, b8, u3), (a9, b9, u4), (a10, b10, u5)]"
    by (simp add: ds us xs)
  moreover have "transitions [Down, Down, Down, Down, Down, Down, Up, Up, Up, Up] = 1"
    by (simp add: transitions_simps)
  ultimately show ?thesis
    using down_up_run [OF d u, of rank a1 b1 a2 b2 a3 b3 a4 b4 a5 b5 a6 b6 a7 b7 a8 b8 a9 b9 a10 b10]
    by auto
qed

theorem down_batch_then_up_batch_counts_nothing_witness:
  "length down_batch = 5 \<and> length (up_batch 100.5) = 5
   \<and> list_all (\<lambda>(now, now2, landmarks).
          length landmarks = 33 \<and> raw_phase landmarks = Some Down) down_batch
   \<and> list_all (\<lambda>(now, now2, landmarks).
          length landmarks = 33 \<and> raw_phase landmarks = Some Up) (up_batch 100.5)
   \<and> (\<exists>rs s'. run rank_t init (down_batch @ up_batch 100.5) = Some (rs, s')
          \<and> rep_count s' = 0 \<and> (\<forall>r\<in>set rs. \<not> r_rep_completed r))"
proof -
  have h1: "length down_batch = 5" by (simp add: down_batch_def)
  have h2: "length (up_batch 100.5) = 5" by (simp add: up_batch_def)
  have h3: "\<forall>(now, now2, landmarks)\<in>set down_batch.
              length landmarks = 33 \<and> raw_phase landmarks = Some Down"
    by (simp add: down_batch_def length_frames raw_down_frame)
  have h4: "\<forall>(now, now2, landmarks)\<in>set (up_batch 100.5).
              length landmarks = 33 \<and> raw_phase landmarks = Some Up"
    by (simp add: up_batch_def length_frames raw_up_frame)
  from down_batch_then_up_batch_counts_nothing [OF h1 h2 h3 h4, of rank_t] h1 h2 h3 h4
  show ?thesis unfolding list_all_iff by blast
qed

text \<open>
  Claim C3 as the specification states it fails: with the second batch starting 1.6 s
  after the first has ended, so with more than 1.0 s between the batches, the count
  after the second batch is 0 and not 1.
\<close>

theorem down_batch_then_up_batch_counterexample:
  "map_option (rep_count \<circ> snd) (run rank_t init (down_batch @ up_batch 102)) = Some 0"
  by (simp add: down_batch_def up_batch_def init_def eval_defs)

end
